(* ===== verification/Prelude.thy ===== *)
theory Prelude
imports Main "HOL-Library.Sublist" "HOL-Library.AList" "HOL-Library.Char_ord" "HOL-Library.List_Lexorder"
begin

text \<open>
  Shared vocabulary of the development: the lemma collections, the types of names and paths,
  the functions of Go's packages strings, strconv and path/filepath that the code uses, and
  the facts on lists and prefixes the component theories share.

  Strings are byte strings (Go strings are byte sequences, a HOL char is a byte).  A path is an
  absolute, cleaned path, given by the list of its components; the root is the empty list.
\<close>

named_theorems run_simps \<open>what a sequence of calls returns, call by call\<close>
named_theorems guar \<open>introduction rules: a relation between the worlds before and after a call\<close>
named_theorems path_facts \<open>which of the program's paths lie below which\<close>

type_synonym path = "string list"

section \<open>Package strings\<close>

definition has_prefix :: "string \<Rightarrow> string \<Rightarrow> bool" where
  "has_prefix s p = prefix p s"

definition has_suffix :: "string \<Rightarrow> string \<Rightarrow> bool" where
  "has_suffix s p = suffix p s"

text \<open>strings.Cut for a separator of one byte.\<close>

definition cut :: "string \<Rightarrow> char \<Rightarrow> string \<times> string \<times> bool" where
  "cut s c = (takeWhile (\<lambda>x. x \<noteq> c) s, tl (dropWhile (\<lambda>x. x \<noteq> c) s), c \<in> set s)"

text \<open>strings.Split for a separator of one byte; never empty.\<close>

fun split_on :: "char \<Rightarrow> string \<Rightarrow> string list" where
  "split_on c [] = [[]]"
| "split_on c (x # xs) =
     (if x = c then [] # split_on c xs
      else (case split_on c xs of [] \<Rightarrow> [[x]] | y # ys \<Rightarrow> (x # y) # ys))"

text \<open>strings.ToLower on ASCII bytes; other bytes stay.\<close>

definition lower_char :: "char \<Rightarrow> char" where
  "lower_char c =
     (if 65 \<le> (of_char c :: nat) \<and> (of_char c :: nat) \<le> 90 then char_of (of_char c + 32 :: nat) else c)"

definition to_lower :: "string \<Rightarrow> string" where
  "to_lower = map lower_char"

text \<open>Decimal notation, as the verb d of package fmt prints it.\<close>

fun show_nat :: "nat \<Rightarrow> string" where
  "show_nat n = (if n < 10 then [char_of (48 + n)] else show_nat (n div 10) @ [char_of (48 + n mod 10)])"

declare show_nat.simps [simp del]

definition show_int :: "int \<Rightarrow> string" where
  "show_int i = (if i < 0 then CHR ''-'' # show_nat (nat (- i)) else show_nat (nat i))"

text \<open>strings.Join.\<close>

fun join_with :: "string \<Rightarrow> string list \<Rightarrow> string" where
  "join_with sep [] = []"
| "join_with sep [s] = s"
| "join_with sep (s # t # ss) = s @ sep @ join_with sep (t # ss)"

section \<open>Package path/filepath\<close>

text \<open>One component pushed on a clean absolute path, as filepath.Clean does it.\<close>

definition push_comp :: "path \<Rightarrow> string \<Rightarrow> path" where
  "push_comp p c =
     (if c = '''' \<or> c = ''.'' then p else if c = ''..'' then butlast p else p @ [c])"

text \<open>filepath.Join of an absolute path and a relative one: the result is cleaned.\<close>

definition joinp :: "path \<Rightarrow> string \<Rightarrow> path" where
  "joinp p s = foldl push_comp p (split_on CHR ''/'' s)"

text \<open>filepath.Dir.\<close>

definition dirname :: "path \<Rightarrow> path" where
  "dirname p = butlast p"

text \<open>A suffix appended to the text of a path (\<open>final + ".tmp"\<close>).\<close>

definition add_suffix :: "path \<Rightarrow> string \<Rightarrow> path" where
  "add_suffix p s = butlast p @ [last p @ s]"

text \<open>The text of a path.\<close>

definition path_text :: "path \<Rightarrow> string" where
  "path_text p = (if p = [] then ''/'' else concat (map (\<lambda>c. CHR ''/'' # c) p))"

text \<open>A name that is one component of a path.\<close>

definition simple_name :: "string \<Rightarrow> bool" where
  "simple_name s = (CHR ''/'' \<notin> set s \<and> s \<noteq> '''' \<and> s \<noteq> ''.'' \<and> s \<noteq> ''..'')"

section \<open>Facts on strings\<close>

lemma split_on_neq_Nil [simp]: "split_on c s \<noteq> []"
  by (induction s) (auto split: list.splits)

lemma split_on_absent: "c \<notin> set s \<Longrightarrow> split_on c s = [s]"
  by (induction s) auto

lemma joinp_simple [simp]: "simple_name s \<Longrightarrow> joinp p s = p @ [s]"
  by (simp add: simple_name_def joinp_def split_on_absent push_comp_def)

lemma cut_found: "c \<notin> set a \<Longrightarrow> cut (a @ c # b) c = (a, b, True)"
proof -
  assume "c \<notin> set a"
  then have "\<forall>x \<in> set a. x \<noteq> c"
    by blast
  then show ?thesis
    by (simp add: cut_def)
qed

lemma cut_absent: "c \<notin> set s \<Longrightarrow> cut s c = (s, [], False)"
  by (induction s) (auto simp: cut_def)

section \<open>Facts on prefixes\<close>

lemma prefix_same_length: "prefix p q \<Longrightarrow> length q \<le> length p \<Longrightarrow> p = q"
  by (auto simp: prefix_def)

lemma prefix_app_iff: "prefix p q \<longleftrightarrow> (\<exists>r. q = p @ r)"
  by (simp add: prefix_def)

lemma prefix_sibling [simp]: "prefix (p @ [a]) (p @ [b]) \<longleftrightarrow> a = b"
  by auto

lemma not_prefix_sibling: "a \<noteq> b \<Longrightarrow> \<not> prefix (p @ a # r) (p @ b # s)"
  by simp

lemma add_suffix_snoc [simp]: "add_suffix (p @ [c]) s = p @ [c @ s]"
  by (simp add: add_suffix_def)

lemma dirname_snoc [simp]: "dirname (p @ [c]) = p"
  by (simp add: dirname_def)

section \<open>Facts on decimal notation\<close>

lemma show_nat_digits: "c \<in> set (show_nat n) \<Longrightarrow> \<exists>k < 10. c = char_of (48 + k :: nat)"
proof (induction n rule: show_nat.induct)
  case (1 n)
  show ?case
  proof (cases "n < 10")
    case True
    with "1.prems" show ?thesis
      by (auto simp: show_nat.simps [of n])
  next
    case False
    with "1.prems" have "c \<in> set (show_nat (n div 10)) \<or> c = char_of (48 + n mod 10)"
      by (auto simp: show_nat.simps [of n])
    moreover have "n mod 10 < 10"
      by simp
    ultimately show ?thesis
      using "1.IH" [OF False] by blast
  qed
qed

lemma show_nat_no_slash: "CHR ''/'' \<notin> set (show_nat n)"
proof
  assume "CHR ''/'' \<in> set (show_nat n)"
  then obtain k :: nat where k: "k < 10" "CHR ''/'' = char_of (48 + k)"
    using show_nat_digits by blast
  then have "(of_char (CHR ''/'') :: nat) = of_char (char_of (48 + k) :: char)"
    by simp
  with k(1) show False
    by simp
qed

lemma simple_temp_name: "simple_name (''.tmp-'' @ show_nat n)"
  by (simp add: simple_name_def show_nat_no_slash)

end
