(* ===== verification/Files.thy ===== *)
theory Files
imports Prelude
begin

text \<open>
  The file system the program works on, as a value: a list of entries (path and node) and of
  modification times, with the effect of each system call on it as a pure function.  The
  component theories reason through the lookup laws at the end of this file.

  Modelled: regular files with their contents, directories, modification times of both (a
  directory's time changes when an entry is made or removed in it).  Left out: permission bits
  and owners, symbolic and hard links, mount points.
\<close>

section \<open>The state of a file system\<close>

datatype node = File string | Dir

record files =
  ents :: "(path \<times> node) list"
  stamps :: "(path \<times> int) list"

definition lookup :: "files \<Rightarrow> path \<Rightarrow> node option" where
  "lookup f p = map_of (ents f) p"

definition mtime :: "files \<Rightarrow> path \<Rightarrow> int" where
  "mtime f p = (case map_of (stamps f) p of None \<Rightarrow> 0 | Some t \<Rightarrow> t)"

definition is_file :: "files \<Rightarrow> path \<Rightarrow> bool" where
  "is_file f p = (case lookup f p of Some (File _) \<Rightarrow> True | _ \<Rightarrow> False)"

definition is_dir :: "files \<Rightarrow> path \<Rightarrow> bool" where
  "is_dir f p = (lookup f p = Some Dir)"

text \<open>Some proper ancestor of the path is a regular file: the kernel answers ENOTDIR.\<close>

definition file_above :: "files \<Rightarrow> path \<Rightarrow> bool" where
  "file_above f p = list_ex (\<lambda>k. is_file f (take k p)) [0..<length p]"

text \<open>The names in a directory, sorted, as os.ReadDir returns them.\<close>

definition children :: "files \<Rightarrow> path \<Rightarrow> string list" where
  "children f p =
     sort (remdups (map (\<lambda>(q, _). last q) (filter (\<lambda>(q, _). q \<noteq> [] \<and> butlast q = p) (ents f))))"

text \<open>A well-formed file system: every path has one entry, the root is a directory, and what has
  an entry lies in a directory.\<close>

definition wf_files :: "files \<Rightarrow> bool" where
  "wf_files f \<longleftrightarrow> distinct (map fst (ents f)) \<and> lookup f [] = Some Dir \<and>
     (\<forall>p n. p \<noteq> [] \<longrightarrow> lookup f p = Some n \<longrightarrow> lookup f (butlast p) = Some Dir)"

section \<open>Changes\<close>

definition stamp :: "path \<Rightarrow> int \<Rightarrow> files \<Rightarrow> files" where
  "stamp p t f = f\<lparr>stamps := AList.update p t (stamps f)\<rparr>"

definition set_node :: "path \<Rightarrow> node \<Rightarrow> int \<Rightarrow> files \<Rightarrow> files" where
  "set_node p n t f =
     (let g = f\<lparr>ents := AList.update p n (ents f)\<rparr>
      in stamp p t (if lookup f p = None then stamp (butlast p) t g else g))"

text \<open>The entries below a path (the path itself included) for which \<open>kept\<close> fails disappear; a
  directory stays when something below it stays.  Every directory that loses an entry is changed, also
  one that stays.\<close>

definition stays :: "(path \<Rightarrow> bool) \<Rightarrow> files \<Rightarrow> path \<Rightarrow> bool" where
  "stays kept f q = list_ex (\<lambda>(r, _). prefix q r \<and> kept r) (ents f)"

definition stamp_dirs :: "path list \<Rightarrow> int \<Rightarrow> files \<Rightarrow> files" where
  "stamp_dirs qs t f = foldl (\<lambda>g q. stamp (butlast q) t g) f qs"

definition rm_tree :: "path \<Rightarrow> (path \<Rightarrow> bool) \<Rightarrow> int \<Rightarrow> files \<Rightarrow> files" where
  "rm_tree p kept t f =
     stamp_dirs (map fst (filter (\<lambda>(q, _). prefix p q \<and> \<not> stays kept f q) (ents f))) t
       (f\<lparr>ents := filter (\<lambda>(q, _). \<not> prefix p q \<or> stays kept f q) (ents f)\<rparr>)"

definition rm_all :: "path \<Rightarrow> int \<Rightarrow> files \<Rightarrow> files" where
  "rm_all p = rm_tree p (\<lambda>_. False)"

definition graft :: "path \<Rightarrow> path \<Rightarrow> path \<Rightarrow> path" where
  "graft p d q = (if prefix p q then d @ drop (length p) q else q)"

text \<open>The tree at \<open>p\<close> is moved to \<open>d\<close>; what was at \<open>d\<close> is replaced.\<close>

definition move :: "path \<Rightarrow> path \<Rightarrow> int \<Rightarrow> files \<Rightarrow> files" where
  "move p d t f =
     (let g = f\<lparr>ents := map (\<lambda>(q, n). (graft p d q, n)) (filter (\<lambda>(q, _). \<not> prefix d q) (ents f)),
              stamps := map (\<lambda>(q, t). (graft p d q, t)) (filter (\<lambda>(q, _). \<not> prefix d q) (stamps f))\<rparr>
      in stamp (butlast d) t (stamp (butlast p) t g))"

text \<open>The ancestors of a path, outermost first, and those that are missing.\<close>

definition ancestors :: "path \<Rightarrow> path list" where
  "ancestors p = map (\<lambda>k. take k p) [0..<Suc (length p)]"

definition missing_dirs :: "files \<Rightarrow> path \<Rightarrow> path list" where
  "missing_dirs f p = filter (\<lambda>q. lookup f q = None) (ancestors p)"

definition make_dirs :: "path list \<Rightarrow> int \<Rightarrow> files \<Rightarrow> files" where
  "make_dirs ps t f = foldl (\<lambda>g p. set_node p Dir t g) f ps"

section \<open>Lookup laws\<close>

lemma lookup_stamp [simp]: "lookup (stamp p t f) q = lookup f q"
  by (simp add: lookup_def stamp_def)

lemma ents_stamp [simp]: "ents (stamp p t f) = ents f"
  by (simp add: stamp_def)

lemma mtime_stamp [simp]: "mtime (stamp p t f) q = (if q = p then t else mtime f q)"
  by (simp add: mtime_def stamp_def update_conv')

lemma mtime_ents [simp]: "mtime (f\<lparr>ents := xs\<rparr>) q = mtime f q"
  by (simp add: mtime_def)

lemma lookup_set_node [simp]: "lookup (set_node p n t f) q = (if q = p then Some n else lookup f q)"
  by (auto simp: lookup_def set_node_def Let_def update_conv')

lemma mtime_set_node:
  "mtime (set_node p n t f) q =
     (if q = p \<or> (q = butlast p \<and> lookup f p = None) then t else mtime f q)"
  by (auto simp: set_node_def Let_def)

lemma map_of_filter_fst: "map_of (filter (\<lambda>(q, n). P q) xs) q = (if P q then map_of xs q else None)"
  by (induction xs) auto

lemma ents_stamp_dirs [simp]: "ents (stamp_dirs qs t f) = ents f"
  by (induction qs arbitrary: f) (simp_all add: stamp_dirs_def)

lemma lookup_stamp_dirs [simp]: "lookup (stamp_dirs qs t f) q = lookup f q"
  by (simp add: lookup_def)

lemma mtime_stamp_dirs [simp]: "mtime (stamp_dirs qs t f) q = (if q \<in> butlast ` set qs then t else mtime f q)"
  by (induction qs arbitrary: f) (auto simp: stamp_dirs_def)

lemma lookup_rm_tree:
  "lookup (rm_tree p kept t f) q =
     (if prefix p q \<and> \<not> stays kept f q then None else lookup f q)"
  by (auto simp: lookup_def rm_tree_def map_of_filter_fst)

lemma not_stays_nothing [simp]: "\<not> stays (\<lambda>_. False) f q"
  by (simp add: stays_def list_ex_iff split_beta)

lemma lookup_rm_all [simp]: "lookup (rm_all p t f) q = (if prefix p q then None else lookup f q)"
  by (simp add: rm_all_def lookup_rm_tree)

lemma mtime_rm_tree_other: "q \<noteq> butlast p \<Longrightarrow> \<not> prefix p q \<Longrightarrow> mtime (rm_tree p kept t f) q = mtime f q"
  by (auto simp: rm_tree_def prefix_def butlast_append split: if_splits)

lemma map_of_graft:
  assumes "\<not> prefix p d" and "\<not> prefix d p"
  shows "map_of (map (\<lambda>(q, n). (graft p d q, n)) (filter (\<lambda>(q, n). \<not> prefix d q) xs)) q =
     (if prefix d q then map_of xs (p @ drop (length d) q)
      else if prefix p q then None else map_of xs q)"
proof (induction xs)
  case (Cons x xs)
  obtain r n where x: "x = (r, n)"
    by (cases x)
  show ?case
  proof (cases "prefix p r")
    case True
    then obtain s where r: "r = p @ s"
      by (auto simp: prefix_def)
    have "\<not> prefix d (p @ s)"
      using assms by (auto simp: prefix_append)
    with Cons show ?thesis
      by (auto simp: x r graft_def prefix_def)
  next
    case False
    then show ?thesis
      using Cons assms by (auto simp: x graft_def dest: prefixI)
  qed
qed auto

lemma lookup_move:
  assumes "\<not> prefix p d" and "\<not> prefix d p"
  shows "lookup (move p d t f) q =
     (if prefix d q then lookup f (p @ drop (length d) q)
      else if prefix p q then None else lookup f q)"
  using map_of_graft [OF assms, of "ents f" q] by (simp add: lookup_def move_def Let_def)

lemma mtime_move:
  assumes "\<not> prefix p d" and "\<not> prefix d p"
  shows "mtime (move p d t f) q =
     (if q = butlast d \<or> q = butlast p then t
      else if prefix d q then mtime f (p @ drop (length d) q) else if prefix p q then 0 else mtime f q)"
  using map_of_graft [OF assms, of "stamps f" q] by (simp add: mtime_def move_def Let_def stamp_def update_conv')

lemma ancestors_prefix: "q \<in> set (ancestors p) \<longleftrightarrow> prefix q p"
proof
  assume "q \<in> set (ancestors p)"
  then show "prefix q p"
    by (auto simp: ancestors_def take_is_prefix)
next
  assume "prefix q p"
  then have "q = take (length q) p" and "length q \<le> length p"
    by (auto simp: prefix_def)
  then show "q \<in> set (ancestors p)"
    unfolding ancestors_def by (metis atLeastLessThan_iff imageI le_imp_less_Suc list.set_map
      set_upt zero_le)
qed

lemma lookup_make_dirs [simp]:
  "lookup (make_dirs ps t f) q = (if q \<in> set ps then Some Dir else lookup f q)"
  by (induction ps arbitrary: f) (auto simp: make_dirs_def)

lemma missing_dirs_iff: "q \<in> set (missing_dirs f p) \<longleftrightarrow> prefix q p \<and> lookup f q = None"
  by (simp add: missing_dirs_def ancestors_prefix)

lemma is_file_iff: "is_file f p \<longleftrightarrow> (\<exists>c. lookup f p = Some (File c))"
  by (auto simp: is_file_def split: option.splits node.splits)

lemma file_above_iff: "file_above f p \<longleftrightarrow> (\<exists>q c. strict_prefix q p \<and> lookup f q = Some (File c))"
proof -
  have "(\<exists>k<length p. P (take k p)) \<longleftrightarrow> (\<exists>q. strict_prefix q p \<and> P q)" for P
  proof
    assume "\<exists>k<length p. P (take k p)"
    then obtain k where k: "k < length p" "P (take k p)"
      by blast
    then have "strict_prefix (take k p) p"
      by (metis length_take min_less_iff_conj nat_neq_iff prefix_order.le_less take_is_prefix)
    with k show "\<exists>q. strict_prefix q p \<and> P q"
      by blast
  next
    assume "\<exists>q. strict_prefix q p \<and> P q"
    then obtain q where q: "strict_prefix q p" "P q"
      by blast
    then have "q = take (length q) p" and "length q < length p"
      by (auto simp: strict_prefix_def prefix_def prefix_length_less)
    with q show "\<exists>k<length p. P (take k p)"
      by metis
  qed
  from this [of "is_file f"] show ?thesis
    by (auto simp: file_above_def list_ex_iff is_file_iff Bex_def)
qed

text \<open>Well-formedness of a given file system is decided by its entries.\<close>

lemma lookup_ents: "lookup f p = Some n \<Longrightarrow> (p, n) \<in> set (ents f)"
  unfolding lookup_def by (rule map_of_SomeD)

lemma wf_files_code [code]:
  "wf_files f \<longleftrightarrow> distinct (map fst (ents f)) \<and> lookup f [] = Some Dir \<and>
     list_all (\<lambda>(p, n). p = [] \<or> lookup f (butlast p) = Some Dir) (ents f)"
proof -
  have "(\<forall>p n. p \<noteq> [] \<longrightarrow> lookup f p = Some n \<longrightarrow> lookup f (butlast p) = Some Dir) \<longleftrightarrow>
      list_all (\<lambda>(p, n). p = [] \<or> lookup f (butlast p) = Some Dir) (ents f)"
    if d: "distinct (map fst (ents f))"
    using d by (auto simp: list_all_iff lookup_def)
  then show ?thesis
    unfolding wf_files_def by blast
qed

end
