(* ===== verification/Goio.thy ===== *)
theory Goio
imports Files
begin

text \<open>
  The effects of the program: error values, the world a run works on, and the calls into the
  operating system.  A computation takes the world and returns an outcome with the new world;
  an early return with an error, a panic and a stop of the machine are outcomes.

  Every system call first consults a schedule, an arbitrary list of steps: it may proceed, fail
  with an error, or be the point at which the machine stops.  A step also says how far the clock
  moves, which random suffix a temporary name gets, and how much of an interrupted call was
  done.  A theorem for all worlds is thus a theorem for all placements of failures and crashes.
  When the schedule is used up the calls proceed.

  Programs the code starts, and libraries that are not part of the repository, are one parameter
  \<open>sh\<close>: the history of earlier calls, the call and the file system give a reply and the new file
  system.
\<close>

section \<open>Errors\<close>

datatype errno = ENOENT | EEXIST | ENOTDIR | EISDIR | EIO | EACCES | ENOSPC | EROFS | EINVAL

fun errno_text :: "errno \<Rightarrow> string" where
  "errno_text ENOENT = ''no such file or directory''"
| "errno_text EEXIST = ''file exists''"
| "errno_text ENOTDIR = ''not a directory''"
| "errno_text EISDIR = ''is a directory''"
| "errno_text EIO = ''input/output error''"
| "errno_text EACCES = ''permission denied''"
| "errno_text ENOSPC = ''no space left on device''"
| "errno_text EROFS = ''read-only file system''"
| "errno_text EINVAL = ''invalid argument''"

text \<open>The error values of the code: fs.PathError and os.LinkError, errors made of a text only,
  errors that wrap another one (the verb w of fmt.Errorf, with the text before and after it), and
  errors.Join.\<close>

datatype err =
    PathErr string path errno
  | LinkErr string path path errno
  | Text string
  | Wrap string err string
  | Joined "err list"

fun err_text :: "err \<Rightarrow> string" where
  "err_text (PathErr call p e) = call @ '' '' @ path_text p @ '': '' @ errno_text e"
| "err_text (LinkErr call p q e) =
     call @ '' '' @ path_text p @ '' '' @ path_text q @ '': '' @ errno_text e"
| "err_text (Text s) = s"
| "err_text (Wrap s e t) = s @ err_text e @ t"
| "err_text (Joined es) = join_with [CHR 0x0A] (map err_text es)"

text \<open>errors.Is with os.ErrNotExist.\<close>

fun is_not_exist :: "err \<Rightarrow> bool" where
  "is_not_exist (PathErr _ _ e) = (e = ENOENT)"
| "is_not_exist (LinkErr _ _ _ e) = (e = ENOENT)"
| "is_not_exist (Text _) = False"
| "is_not_exist (Wrap _ e _) = is_not_exist e"
| "is_not_exist (Joined es) = list_ex is_not_exist es"

section \<open>The world\<close>

text \<open>The failures a call can meet beside those its arguments cause.\<close>

datatype fault = IOFault | AccessFault | SpaceFault | ReadOnlyFault

fun fault_errno :: "fault \<Rightarrow> errno" where
  "fault_errno IOFault = EIO"
| "fault_errno AccessFault = EACCES"
| "fault_errno SpaceFault = ENOSPC"
| "fault_errno ReadOnlyFault = EROFS"

lemma fault_exists [simp]: "fault_errno x \<noteq> ENOENT" "ENOENT \<noteq> fault_errno x"
  by (cases x; simp)+

datatype plan = Proceed | Fail fault | Crash

record step =
  plan :: plan
  gap :: int
  rnd :: nat
  done_part :: nat
  kept_part :: "path \<Rightarrow> bool"

definition calm :: step where
  "calm = \<lparr>plan = Proceed, gap = 0, rnd = 0, done_part = 0, kept_part = (\<lambda>_. False)\<rparr>"

text \<open>A call of a program or library: its words, paths kept as paths, numbers as numbers, structured values as groups.\<close>

datatype arg = Word string | Path path | Num int | Group "arg list"

type_synonym call = "arg list"

fun arg_text :: "arg \<Rightarrow> string" where
  "arg_text (Word s) = s"
| "arg_text (Path p) = path_text p"
| "arg_text (Num i) = show_int i"
| "arg_text (Group as) = join_with '' '' (map arg_text as)"

text \<open>What comes back: the error if it failed, the two output streams of a program, and the status
  conditions (type and status) of an object a library call returned.\<close>

record reply =
  failure :: "err option"
  stdout :: string
  stderr :: string
  conditions :: "(string \<times> string) list"

type_synonym shell = "call list \<Rightarrow> call \<Rightarrow> files \<Rightarrow> reply \<times> files"

record world =
  fs :: files
  sched :: "step list"
  now :: int
  trace :: "call list"
  logs :: "string list"

abbreviation look :: "world \<Rightarrow> path \<Rightarrow> node option" where
  "look w p \<equiv> lookup (fs w) p"

datatype 'a res = Ok 'a | Err err | Panic | Crashed

type_synonym 'a io = "world \<Rightarrow> 'a res \<times> world"

section \<open>Control flow\<close>

definition return :: "'a \<Rightarrow> 'a io" where
  "return x w = (Ok x, w)"

definition raise :: "err \<Rightarrow> 'a io" where
  "raise e w = (Err e, w)"

definition panic :: "'a io" where
  "panic w = (Panic, w)"

text \<open>One statement after another; an error is returned at once.\<close>

definition seq :: "'a io \<Rightarrow> ('a \<Rightarrow> 'b io) \<Rightarrow> 'b io" where
  "seq m k w = (case m w of (Ok x, v) \<Rightarrow> k x v | (Err e, v) \<Rightarrow> (Err e, v)
     | (Panic, v) \<Rightarrow> (Panic, v) | (Crashed, v) \<Rightarrow> (Crashed, v))"

definition after :: "unit io \<Rightarrow> 'b io \<Rightarrow> 'b io" where
  "after m n = seq m (\<lambda>_. n)"

text \<open>\<open>if err := m; err != nil { h }\<close>: the error goes to a handler.\<close>

definition on_err :: "'a io \<Rightarrow> (err \<Rightarrow> 'a io) \<Rightarrow> 'a io" where
  "on_err m h w = (case m w of (Err e, v) \<Rightarrow> h e v | x \<Rightarrow> x)"

text \<open>The error as a value the code goes on to inspect.\<close>

definition attempt :: "'a io \<Rightarrow> (err + 'a) io" where
  "attempt m w = (case m w of (Ok x, v) \<Rightarrow> (Ok (Inr x), v) | (Err e, v) \<Rightarrow> (Ok (Inl e), v)
     | (Panic, v) \<Rightarrow> (Panic, v) | (Crashed, v) \<Rightarrow> (Crashed, v))"

text \<open>\<open>_ = m\<close>: the error is dropped.\<close>

definition ignore :: "'a io \<Rightarrow> unit io" where
  "ignore m = seq (attempt m) (\<lambda>_. return ())"

text \<open>fmt.Errorf with a prefix and the verb w.\<close>

definition wrapped :: "string \<Rightarrow> 'a io \<Rightarrow> 'a io" where
  "wrapped s m = on_err m (\<lambda>e. raise (Wrap s e ''''))"

text \<open>\<open>defer d\<close>: runs on every return, with an error and on a panic too, but not when the machine
  stops; its own error does not change what is returned.\<close>

definition deferred :: "'a io \<Rightarrow> 'b io \<Rightarrow> 'a io" where
  "deferred m d w = (case m w of (Crashed, v) \<Rightarrow> (Crashed, v)
     | (r, v) \<Rightarrow> (case d v of (Crashed, u) \<Rightarrow> (Crashed, u) | (Panic, u) \<Rightarrow> (Panic, u) | (_, u) \<Rightarrow> (r, u)))"

fun for_each :: "'a list \<Rightarrow> ('a \<Rightarrow> unit io) \<Rightarrow> unit io" where
  "for_each [] f = return ()"
| "for_each (x # xs) f = after (f x) (for_each xs f)"

definition logf :: "string \<Rightarrow> unit io" where
  "logf s w = (Ok (), w\<lparr>logs := logs w @ [s]\<rparr>)"

section \<open>System calls\<close>

definition tick :: "world \<Rightarrow> step \<times> world" where
  "tick w = (case sched w of [] \<Rightarrow> (calm, w)
     | s # ss \<Rightarrow> (s, w\<lparr>sched := ss, now := now w + gap s\<rparr>))"

text \<open>A system call, from its effect when it is carried out, the state it leaves when it fails or
  the machine stops in it, and the error value its failure becomes.\<close>

definition syscall ::
  "(errno \<Rightarrow> err) \<Rightarrow> (step \<Rightarrow> int \<Rightarrow> files \<Rightarrow> (errno + 'a) \<times> files) \<Rightarrow> (step \<Rightarrow> int \<Rightarrow> files \<Rightarrow> files) \<Rightarrow> 'a io"
where
  "syscall mk full part w =
     (case tick w of (s, v) \<Rightarrow>
        (case plan s of
           Proceed \<Rightarrow> (case full s (now v) (fs v) of
                (Inl e, g) \<Rightarrow> (Err (mk e), v\<lparr>fs := g\<rparr>)
              | (Inr x, g) \<Rightarrow> (Ok x, v\<lparr>fs := g\<rparr>))
         | Fail e \<Rightarrow> (Err (mk (fault_errno e)), v\<lparr>fs := part s (now v) (fs v)\<rparr>)
         | Crash \<Rightarrow> (Crashed, v\<lparr>fs := part s (now v) (fs v)\<rparr>)))"

definition nothing_done :: "step \<Rightarrow> int \<Rightarrow> files \<Rightarrow> files" where
  "nothing_done s t f = f"

text \<open>What the kernel answers for a path without an entry.\<close>

definition absent_errno :: "files \<Rightarrow> path \<Rightarrow> errno" where
  "absent_errno f p = (if file_above f p then ENOTDIR else ENOENT)"

text \<open>os.Stat; the information used is the kind and the modification time.\<close>

definition stat :: "path \<Rightarrow> (node \<times> int) io" where
  "stat p = syscall (PathErr ''stat'' p)
     (\<lambda>s t f. (case lookup f p of None \<Rightarrow> Inl (absent_errno f p) | Some n \<Rightarrow> Inr (n, mtime f p), f))
     nothing_done"

text \<open>os.ReadFile: a directory is opened, but cannot be read.\<close>

definition read_file :: "path \<Rightarrow> string io" where
  "read_file p = syscall (\<lambda>e. PathErr (if e = EISDIR then ''read'' else ''open'') p e)
     (\<lambda>s t f. (case lookup f p of None \<Rightarrow> Inl (absent_errno f p) | Some Dir \<Rightarrow> Inl EISDIR
        | Some (File c) \<Rightarrow> Inr c, f))
     nothing_done"

text \<open>os.WriteFile: creates or truncates, then writes.  An interrupted call did nothing, or left
  a beginning of the data.\<close>

definition write_part :: "path \<Rightarrow> string \<Rightarrow> step \<Rightarrow> int \<Rightarrow> files \<Rightarrow> files" where
  "write_part p c s t f =
     (if done_part s = 0 \<or> is_dir f p \<or> \<not> is_dir f (butlast p) then f
      else set_node p (File (take (done_part s - 1) c)) t f)"

definition write_file :: "path \<Rightarrow> string \<Rightarrow> unit io" where
  "write_file p c = syscall (PathErr ''open'' p)
     (\<lambda>s t f. if is_dir f p then (Inl EISDIR, f)
        else if \<not> is_dir f (butlast p) then (Inl (absent_errno f p), f)
        else (Inr (), set_node p (File c) t f))
     (write_part p c)"

text \<open>os.MkdirAll: the missing directories are made from the outermost on.\<close>

definition mkdir_all :: "path \<Rightarrow> unit io" where
  "mkdir_all p = syscall (PathErr ''mkdir'' p)
     (\<lambda>s t f. if is_file f p \<or> file_above f p then (Inl ENOTDIR, f)
        else (Inr (), make_dirs (missing_dirs f p) t f))
     (\<lambda>s t f. if is_file f p \<or> file_above f p then f
        else make_dirs (take (done_part s) (missing_dirs f p)) t f)"

text \<open>os.RemoveAll: no error for a path without an entry.  An interrupted call leaves some of the
  tree, with the directories above what is left.\<close>

definition remove_all :: "path \<Rightarrow> unit io" where
  "remove_all p = syscall (PathErr ''unlinkat'' p)
     (\<lambda>s t f. if file_above f p then (Inl ENOTDIR, f)
        else if lookup f p = None then (Inr (), f)
        else (Inr (), rm_all p t f))
     (\<lambda>s t f. if file_above f p \<or> lookup f p = None then f else rm_tree p (kept_part s) t f)"

text \<open>os.Remove of a file or an empty directory.\<close>

definition remove_one :: "path \<Rightarrow> unit io" where
  "remove_one p = syscall (PathErr ''remove'' p)
     (\<lambda>s t f. if lookup f p = None then (Inl (absent_errno f p), f)
        else if is_dir f p \<and> children f p \<noteq> [] then (Inl EEXIST, f)
        else (Inr (), rm_all p t f))
     nothing_done"

text \<open>os.Rename on one file system.  Go refuses a target that is a directory.\<close>

definition rename :: "path \<Rightarrow> path \<Rightarrow> unit io" where
  "rename p d = syscall (LinkErr ''rename'' p d)
     (\<lambda>s t f. if lookup f p = None then (Inl (absent_errno f p), f)
        else if p = d then (Inr (), f)
        else if is_dir f d then (Inl EEXIST, f)
        else if prefix p d then (Inl EINVAL, f)
        else if \<not> is_dir f (butlast d) then (Inl (absent_errno f d), f)
        else if is_dir f p \<and> is_file f d then (Inl ENOTDIR, f)
        else (Inr (), move p d t f))
     nothing_done"

text \<open>os.ReadDir: names in order, each with the kind of the entry.\<close>

definition read_dir :: "path \<Rightarrow> (string \<times> bool) list io" where
  "read_dir p = syscall (PathErr ''open'' p)
     (\<lambda>s t f. (case lookup f p of None \<Rightarrow> Inl (absent_errno f p) | Some (File _) \<Rightarrow> Inl ENOTDIR
        | Some Dir \<Rightarrow> Inr (map (\<lambda>n. (n, is_dir f (p @ [n]))) (children f p)), f))
     nothing_done"

text \<open>os.CreateTemp: a new empty file with a random decimal suffix.  A collision is an error (Go tries ten
  thousand suffixes first), and an error names the directory instead of the file.\<close>

definition create_temp :: "path \<Rightarrow> string \<Rightarrow> path io" where
  "create_temp dir pre = syscall (PathErr ''open'' dir)
     (\<lambda>s t f. let p = joinp dir (pre @ show_nat (rnd s))
        in if lookup f p \<noteq> None then (Inl EEXIST, f)
           else if \<not> is_dir f (butlast p) then (Inl (absent_errno f p), f)
           else (Inr p, set_node p (File '''') t f))
     nothing_done"

text \<open>Write, Sync and Close of an open file; a file that has lost its name stays without one.\<close>

definition fill :: "path \<Rightarrow> string \<Rightarrow> int \<Rightarrow> files \<Rightarrow> files" where
  "fill p c t f = (if is_file f p then set_node p (File c) t f else f)"

definition write_open :: "path \<Rightarrow> string \<Rightarrow> unit io" where
  "write_open p c = syscall (PathErr ''write'' p)
     (\<lambda>s t f. (Inr (), fill p c t f))
     (\<lambda>s t f. fill p (take (done_part s) c) t f)"

definition sync_open :: "path \<Rightarrow> unit io" where
  "sync_open p = syscall (PathErr ''sync'' p) (\<lambda>s t f. (Inr (), f)) nothing_done"

definition close_open :: "path \<Rightarrow> unit io" where
  "close_open p = syscall (PathErr ''close'' p) (\<lambda>s t f. (Inr (), f)) nothing_done"

text \<open>A program is run, or a library called.  The machine may stop before it starts or once it has
  had its effect; whether it succeeds is up to the parameter.\<close>

definition extern :: "shell \<Rightarrow> call \<Rightarrow> reply io" where
  "extern sh c w =
     (case tick w of (s, v) \<Rightarrow>
        if plan s = Crash \<and> done_part s = 0 then (Crashed, v)
        else (case sh (trace v) c (fs v) of (r, g) \<Rightarrow>
          let u = v\<lparr>fs := g, trace := trace v @ [c]\<rparr>
          in if plan s = Crash then (Crashed, u) else (Ok r, u)))"

text \<open>A world with a given file system and an empty schedule: nothing fails.\<close>

definition quiet :: "files \<Rightarrow> world" where
  "quiet f = \<lparr>fs = f, sched = [], now = 0, trace = [], logs = []\<rparr>"

lemma quiet_simps [simp]: "fs (quiet f) = f" "sched (quiet f) = []" "trace (quiet f) = []"
  by (simp_all add: quiet_def)

end
