(* ===== verification/Reason.thy ===== *)
theory Reason
imports Goio
begin

text \<open>
  How the component theories reason about computations.  Two kinds of facts: what a computation
  has done when it returned a value (inversion rules, collected in \<open>run_simps\<close>), and a relation
  between the file systems before and after that holds whatever the outcome, at every failure
  and every crash (\<open>guarantees\<close>, with the introduction rules in \<open>guar\<close>).
\<close>

section \<open>Inversion of control flow\<close>

lemma return_run [run_simps]: "return x w = (r, u) \<longleftrightarrow> r = Ok x \<and> u = w"
  by (auto simp: return_def)

lemma raise_run [run_simps]: "raise e w = (r, u) \<longleftrightarrow> r = Err e \<and> u = w"
  by (auto simp: raise_def)

lemma seq_Ok [run_simps]: "seq m k w = (Ok y, u) \<longleftrightarrow> (\<exists>x v. m w = (Ok x, v) \<and> k x v = (Ok y, u))"
  by (auto simp: seq_def split: prod.splits res.splits)

lemma after_Ok [run_simps]: "after m n w = (Ok y, u) \<longleftrightarrow> (\<exists>v. m w = (Ok (), v) \<and> n v = (Ok y, u))"
  by (simp add: after_def seq_Ok)

lemma on_err_Ok [run_simps]:
  "on_err m h w = (Ok y, u) \<longleftrightarrow>
     m w = (Ok y, u) \<or> (\<exists>e v. m w = (Err e, v) \<and> h e v = (Ok y, u))"
  by (auto simp: on_err_def split: prod.splits res.splits)

lemma wrapped_Ok [run_simps]: "wrapped s m w = (Ok y, u) \<longleftrightarrow> m w = (Ok y, u)"
  by (simp add: wrapped_def run_simps)

lemma attempt_Ok [run_simps]:
  "attempt m w = (Ok z, u) \<longleftrightarrow>
     (\<exists>x. z = Inr x \<and> m w = (Ok x, u)) \<or> (\<exists>e. z = Inl e \<and> m w = (Err e, u))"
  by (auto simp: attempt_def split: prod.splits res.splits)

lemma logf_run [run_simps]: "logf s w = (r, u) \<longleftrightarrow> r = Ok () \<and> u = w\<lparr>logs := logs w @ [s]\<rparr>"
  by (auto simp: logf_def)

lemma for_each_Ok_Nil [run_simps]: "for_each [] f w = (Ok x, u) \<longleftrightarrow> u = w"
  by (auto simp: return_def)

lemma for_each_Ok_Cons [run_simps]:
  "for_each (x # xs) f w = (Ok z, u) \<longleftrightarrow> (\<exists>v. f x w = (Ok (), v) \<and> for_each xs f v = (Ok z, u))"
  by (simp add: after_Ok)

lemma deferred_Ok:
  "deferred m d w = (Ok x, u) \<Longrightarrow>
     \<exists>v. m w = (Ok x, v) \<and> ((\<exists>y. d v = (Ok y, u)) \<or> (\<exists>e. d v = (Err e, u)))"
  by (auto simp: deferred_def split: prod.splits res.splits)

lemma ignore_run: "ignore m w = (Err e, u) \<longleftrightarrow> False"
  by (auto simp: ignore_def seq_def attempt_def return_def split: prod.splits res.splits)

lemma ignore_Ok:
  "ignore m w = (Ok (), u) \<longleftrightarrow> (\<exists>x. m w = (Ok x, u)) \<or> (\<exists>e. m w = (Err e, u))"
  by (auto simp: ignore_def run_simps)

text \<open>Whatever the outcome: how far a sequence got.\<close>

lemma seq_cases:
  assumes "seq m k w = (r, v)"
  obtains (through) x u where "m w = (Ok x, u)" "k x u = (r, v)"
    | (stopped) r' where "m w = (r', v)" "\<forall>x. r' \<noteq> Ok x" "\<forall>x. r \<noteq> Ok x"
  using assms by (auto simp: seq_def split: prod.splits res.splits)

lemma after_cases:
  assumes "after m n w = (r, v)"
  obtains (through) u where "m w = (Ok (), u)" "n u = (r, v)"
    | (stopped) r' where "m w = (r', v)" "r' \<noteq> Ok ()" "\<forall>x. r \<noteq> Ok x"
  using assms unfolding after_def by (auto elim!: seq_cases)

lemma deferred_cases:
  assumes "deferred m d w = (r, v)"
  obtains r' u where "m w = (r', u)" "v = u \<or> (\<exists>y. d u = (y, v))"
  using assms by (auto simp: deferred_def split: prod.splits res.splits)

section \<open>What the system calls did\<close>

lemma tick_fs [simp]: "fs (snd (tick w)) = fs w" "trace (snd (tick w)) = trace w"
    "logs (snd (tick w)) = logs w"
  by (simp_all add: tick_def split: list.splits)

lemma tick_run: "tick w = (s, v) \<Longrightarrow> fs v = fs w \<and> trace v = trace w \<and> logs v = logs w"
  using tick_fs [of w] by simp

lemma syscall_Ok:
  "syscall mk full part w = (Ok x, v) \<Longrightarrow> \<exists>s t g. full s t (fs w) = (Inr x, g) \<and> fs v = g"
  by (auto simp: syscall_def split: prod.splits plan.splits sum.splits dest!: tick_run) metis

lemma syscall_Err:
  assumes "syscall mk full part w = (Err e, v)"
  shows "(\<exists>s t c g. full s t (fs w) = (Inl c, g) \<and> fs v = g \<and> e = mk c) \<or>
     (\<exists>s t x. fs v = part s t (fs w) \<and> e = mk (fault_errno x))"
  using assms
  by (auto simp: syscall_def split: prod.splits plan.splits sum.splits dest!: tick_run) metis+

lemma syscall_Crashed:
  "syscall mk full part w = (Crashed, v) \<Longrightarrow> \<exists>s t. fs v = part s t (fs w)"
  by (auto simp: syscall_def split: prod.splits plan.splits sum.splits dest!: tick_run; metis)

lemma syscall_no_Panic [simp]: "syscall mk full part w \<noteq> (Panic, v)"
  by (auto simp: syscall_def split: prod.splits plan.splits sum.splits)

lemma stat_Ok: "stat p w = (Ok (n, t), v) \<Longrightarrow> look w p = Some n \<and> t = mtime (fs w) p \<and> fs v = fs w"
  unfolding stat_def by (drule syscall_Ok) (auto split: option.splits)

lemma stat_Err: "stat p w = (Err e, v) \<Longrightarrow> fs v = fs w \<and> (is_not_exist e \<longrightarrow> look w p = None)"
  unfolding stat_def by (drule syscall_Err) (auto simp: nothing_done_def split: option.splits)

lemma read_file_Ok: "read_file p w = (Ok c, v) \<Longrightarrow> look w p = Some (File c) \<and> fs v = fs w"
  unfolding read_file_def by (drule syscall_Ok) (auto split: option.splits node.splits)

lemma read_file_Err: "read_file p w = (Err e, v) \<Longrightarrow> fs v = fs w \<and> (is_not_exist e \<longrightarrow> look w p = None)"
  unfolding read_file_def
  by (drule syscall_Err) (auto simp: nothing_done_def split: option.splits node.splits)

lemma write_file_Ok:
  "write_file p c w = (Ok (), v) \<Longrightarrow> \<exists>t. fs v = set_node p (File c) t (fs w)"
  unfolding write_file_def by (drule syscall_Ok) (auto split: if_splits; metis)

lemma mkdir_all_Ok:
  "mkdir_all p w = (Ok (), v) \<Longrightarrow>
     \<not> is_file (fs w) p \<and> \<not> file_above (fs w) p \<and>
     (\<exists>t. fs v = make_dirs (missing_dirs (fs w) p) t (fs w))"
  unfolding mkdir_all_def by (drule syscall_Ok) (auto split: if_splits; metis)

lemma remove_all_Ok:
  "remove_all p w = (Ok (), v) \<Longrightarrow> (look w p = None \<and> fs v = fs w) \<or> (\<exists>t. fs v = rm_all p t (fs w))"
  unfolding remove_all_def by (drule syscall_Ok) (auto split: if_splits; metis)

lemma remove_one_Ok: "remove_one p w = (Ok (), v) \<Longrightarrow> look w p \<noteq> None \<and> (\<exists>t. fs v = rm_all p t (fs w))"
  unfolding remove_one_def by (drule syscall_Ok) (auto split: if_splits; metis)

lemma remove_one_Err: "remove_one p w = (Err e, v) \<Longrightarrow> fs v = fs w \<and> (is_not_exist e \<longrightarrow> look w p = None)"
  unfolding remove_one_def
  by (drule syscall_Err) (auto simp: nothing_done_def split: if_splits)

lemma rename_Ok:
  "rename p d w = (Ok (), v) \<Longrightarrow> p \<noteq> d \<Longrightarrow>
     look w p \<noteq> None \<and> \<not> is_dir (fs w) d \<and> is_dir (fs w) (butlast d) \<and> \<not> prefix p d \<and>
     (\<exists>t. fs v = move p d t (fs w))"
  unfolding rename_def by (drule syscall_Ok) (auto split: if_splits; metis)

lemma rename_not_Ok: "rename p d w = (Err e, v) \<or> rename p d w = (Crashed, v) \<Longrightarrow> fs v = fs w"
  unfolding rename_def
  by (auto dest!: syscall_Err syscall_Crashed simp: nothing_done_def split: if_splits)

lemma rename_cases:
  assumes "rename p d w = (r, v)" "p \<noteq> d"
  obtains (unmoved) "fs v = fs w" "r \<noteq> Ok ()"
    | (moved) t where "r = Ok ()" "look w p \<noteq> None" "\<not> is_dir (fs w) d" "is_dir (fs w) (butlast d)"
        "\<not> prefix p d" "fs v = move p d t (fs w)"
proof (cases r)
  case (Ok x)
  with assms that(2) show ?thesis
    using rename_Ok [of p d w v] by auto
next
  case Panic
  with assms(1) show ?thesis
    by (simp add: rename_def)
qed (use assms(1) rename_not_Ok that(1) in blast)+

lemma read_dir_Ok:
  "read_dir p w = (Ok xs, v) \<Longrightarrow>
     fs v = fs w \<and> is_dir (fs w) p \<and> xs = map (\<lambda>n. (n, is_dir (fs w) (p @ [n]))) (children (fs w) p)"
  unfolding read_dir_def by (drule syscall_Ok) (auto simp: is_dir_def split: option.splits node.splits)

lemma read_dir_Err: "read_dir p w = (Err e, v) \<Longrightarrow> fs v = fs w \<and> (is_not_exist e \<longrightarrow> look w p = None)"
  unfolding read_dir_def
  by (drule syscall_Err) (auto simp: nothing_done_def split: option.splits node.splits)

lemma create_temp_Ok:
  assumes "create_temp d pre w = (Ok p, v)"
  shows "\<exists>x t. p = joinp d (pre @ show_nat x) \<and> look w p = None \<and> fs v = set_node p (File '''') t (fs w)"
proof -
  from syscall_Ok [OF assms [unfolded create_temp_def]] obtain s :: step and t g where
    "(let p = joinp d (pre @ show_nat (rnd s))
      in if look w p \<noteq> None then (Inl EEXIST, fs w)
         else if \<not> is_dir (fs w) (butlast p) then (Inl (absent_errno (fs w) p), fs w)
         else (Inr p, set_node p (File '''') t (fs w))) = (Inr p, g) \<and> fs v = g"
    by blast
  then have "p = joinp d (pre @ show_nat (rnd s))" "look w p = None" "fs v = set_node p (File '''') t (fs w)"
    by (auto simp: Let_def split: if_splits)
  then show ?thesis
    by blast
qed

lemma write_open_Ok: "write_open p c w = (Ok (), v) \<Longrightarrow> \<exists>t. fs v = fill p c t (fs w)"
  unfolding write_open_def by (drule syscall_Ok) (auto; metis)

lemma sync_open_Ok: "sync_open p w = (Ok (), v) \<Longrightarrow> fs v = fs w"
  unfolding sync_open_def by (drule syscall_Ok) auto

lemma close_open_Ok: "close_open p w = (Ok (), v) \<Longrightarrow> fs v = fs w"
  unfolding close_open_def by (drule syscall_Ok) auto

lemma extern_Ok:
  "extern sh c w = (Ok r, v) \<Longrightarrow> sh (trace w) c (fs w) = (r, fs v) \<and> trace v = trace w @ [c]"
  by (auto simp: extern_def Let_def split: prod.splits if_splits dest!: tick_run)

section \<open>Relations every run respects\<close>

text \<open>\<open>guarantees R m\<close>: from every world and under every schedule, the file system after \<open>m\<close> is
  related by \<open>R\<close> to the one before, whatever the outcome.\<close>

definition guarantees :: "(files \<Rightarrow> files \<Rightarrow> bool) \<Rightarrow> 'a io \<Rightarrow> bool" where
  "guarantees R m \<longleftrightarrow> (\<forall>w. R (fs w) (fs (snd (m w))))"

lemma guaranteesD: "guarantees R m \<Longrightarrow> m w = (r, v) \<Longrightarrow> R (fs w) (fs v)"
  unfolding guarantees_def by (metis snd_conv)

text \<open>The interface: any relation that is reflexive and transitive carries over to a whole
  computation from its calls.\<close>

locale files_rel =
  fixes R :: "files \<Rightarrow> files \<Rightarrow> bool"
  assumes rel_refl: "R f f"
    and rel_trans: "R f g \<Longrightarrow> R g h \<Longrightarrow> R f h"
begin

lemma gu_return: "guarantees R (return x)"
  by (simp add: guarantees_def return_def rel_refl)

lemma gu_raise: "guarantees R (raise e)"
  by (simp add: guarantees_def raise_def rel_refl)

lemma gu_panic: "guarantees R panic"
  by (simp add: guarantees_def panic_def rel_refl)

lemma gu_logf: "guarantees R (logf s)"
  by (simp add: guarantees_def logf_def rel_refl)

lemma gu_seq: "guarantees R m \<Longrightarrow> (\<And>x. guarantees R (k x)) \<Longrightarrow> guarantees R (seq m k)"
  unfolding guarantees_def seq_def
  by (auto split: prod.splits res.splits) (metis rel_trans snd_conv)+

lemma gu_seq_value:
  assumes "guarantees R m" and "\<And>w x v. m w = (Ok x, v) \<Longrightarrow> guarantees R (k x)"
  shows "guarantees R (seq m k)"
  unfolding guarantees_def
proof
  fix w
  obtain r v where s: "seq m k w = (r, v)"
    by fastforce
  then have "R (fs w) (fs v)"
  proof (cases rule: seq_cases)
    case (through x u)
    show ?thesis
      using guaranteesD [OF assms(1) through(1)] guaranteesD [OF assms(2) [OF through(1)] through(2)]
      by (rule rel_trans)
  next
    case (stopped r')
    then show ?thesis
      using guaranteesD [OF assms(1)] by blast
  qed
  with s show "R (fs w) (fs (snd (seq m k w)))"
    by simp
qed

lemma gu_after: "guarantees R m \<Longrightarrow> guarantees R n \<Longrightarrow> guarantees R (after m n)"
  by (simp add: after_def gu_seq)

lemma gu_on_err: "guarantees R m \<Longrightarrow> (\<And>e. guarantees R (h e)) \<Longrightarrow> guarantees R (on_err m h)"
  unfolding guarantees_def on_err_def
  by (auto split: prod.splits res.splits) (metis rel_trans snd_conv)+

lemma gu_wrapped: "guarantees R m \<Longrightarrow> guarantees R (wrapped s m)"
  by (simp add: wrapped_def gu_on_err gu_raise)

lemma gu_attempt: "guarantees R m \<Longrightarrow> guarantees R (attempt m)"
  unfolding guarantees_def attempt_def
  by (auto split: prod.splits res.splits) (metis snd_conv)+

lemma gu_ignore: "guarantees R m \<Longrightarrow> guarantees R (ignore m)"
  by (simp add: ignore_def gu_seq gu_attempt gu_return)

lemma gu_deferred: "guarantees R m \<Longrightarrow> guarantees R d \<Longrightarrow> guarantees R (deferred m d)"
  unfolding guarantees_def deferred_def
  by (auto split: prod.splits res.splits) (metis rel_trans snd_conv)+

lemma gu_for_each: "(\<And>x. x \<in> set xs \<Longrightarrow> guarantees R (f x)) \<Longrightarrow> guarantees R (for_each xs f)"
  by (induction xs) (auto intro: gu_after gu_return)

lemma gu_syscall:
  assumes "\<And>s t f. R f (snd (full s t f))" and "\<And>s t f. R f (part s t f)"
  shows "guarantees R (syscall mk full part)"
  unfolding guarantees_def
proof
  fix w
  obtain s v where t: "tick w = (s, v)"
    by fastforce
  then have "fs v = fs w"
    using tick_fs(1) [of w] by simp
  with t show "R (fs w) (fs (snd (syscall mk full part w)))"
    using assms(1) [of "fs w" s "now v"] assms(2) [of "fs w" s "now v"]
    by (auto simp: syscall_def split: prod.splits plan.splits sum.splits)
qed

lemma gu_stat: "guarantees R (stat p)"
  unfolding stat_def by (rule gu_syscall) (simp_all add: rel_refl nothing_done_def)

lemma gu_read_file: "guarantees R (read_file p)"
  unfolding read_file_def by (rule gu_syscall) (simp_all add: rel_refl nothing_done_def)

lemma gu_read_dir: "guarantees R (read_dir p)"
  unfolding read_dir_def by (rule gu_syscall) (simp_all add: rel_refl nothing_done_def)

lemma gu_sync_open: "guarantees R (sync_open p)"
  unfolding sync_open_def by (rule gu_syscall) (simp_all add: rel_refl nothing_done_def)

lemma gu_close_open: "guarantees R (close_open p)"
  unfolding close_open_def by (rule gu_syscall) (simp_all add: rel_refl nothing_done_def)

lemma gu_extern:
  assumes "\<And>h f. R f (snd (sh h c f))"
  shows "guarantees R (extern sh c)"
  unfolding guarantees_def
proof
  fix w
  show "R (fs w) (fs (snd (extern sh c w)))"
    using assms [of "fs w" "trace w"]
    by (auto simp: extern_def Let_def rel_refl split: prod.splits dest!: tick_run)
qed

lemmas gu_rules =
  gu_return gu_raise gu_panic gu_logf gu_seq gu_after gu_on_err gu_wrapped gu_attempt gu_ignore
  gu_deferred gu_for_each gu_stat gu_read_file gu_read_dir gu_sync_open gu_close_open

end

end
