(* ===== verification/Frames.thy ===== *)
theory Frames
imports Reason
begin

text \<open>
  The relations between file systems the components are checked against: what lies outside
  a set of paths keeps its contents (\<open>same_outside\<close>), keeps its modification times
  (\<open>same_times\<close>), well-formedness is kept (\<open>keeps_wf\<close>), no entry appears (\<open>only_removes\<close>).  Each is an instance of the
  interface of theory Reason, and each system call has its introduction rule here.
\<close>

definition below :: "path \<Rightarrow> path set" where
  "below p = {q. prefix p q}"

definition above :: "path \<Rightarrow> path set" where
  "above p = {q. prefix q p}"

lemma below_iff [simp]: "q \<in> below p \<longleftrightarrow> prefix p q"
  by (simp add: below_def)

lemma above_iff [simp]: "q \<in> above p \<longleftrightarrow> prefix q p"
  by (simp add: above_def)

definition same_outside :: "path set \<Rightarrow> files \<Rightarrow> files \<Rightarrow> bool" where
  "same_outside A f g \<longleftrightarrow> (\<forall>q. q \<notin> A \<longrightarrow> lookup g q = lookup f q)"

definition same_times :: "path set \<Rightarrow> files \<Rightarrow> files \<Rightarrow> bool" where
  "same_times A f g \<longleftrightarrow> (\<forall>q. q \<notin> A \<longrightarrow> mtime g q = mtime f q)"

definition keeps_wf :: "files \<Rightarrow> files \<Rightarrow> bool" where
  "keeps_wf f g \<longleftrightarrow> (wf_files f \<longrightarrow> wf_files g)"

definition only_removes :: "files \<Rightarrow> files \<Rightarrow> bool" where
  "only_removes f g \<longleftrightarrow> (\<forall>q. lookup f q = None \<longrightarrow> lookup g q = None)"

interpretation outside: files_rel "same_outside A" for A
  by unfold_locales (auto simp: same_outside_def)

interpretation times: files_rel "same_times A" for A
  by unfold_locales (auto simp: same_times_def)

interpretation wfr: files_rel keeps_wf
  by unfold_locales (auto simp: keeps_wf_def)

interpretation removing: files_rel only_removes
  by unfold_locales (auto simp: only_removes_def)

definition unchanged :: "files \<Rightarrow> files \<Rightarrow> bool" where
  "unchanged f g \<longleftrightarrow> g = f"

interpretation same: files_rel unchanged
  by unfold_locales (auto simp: unchanged_def)

lemmas [guar] = same.gu_rules outside.gu_rules times.gu_rules wfr.gu_rules removing.gu_rules

lemma removing_remove_one [guar]: "guarantees only_removes (remove_one p)"
  unfolding remove_one_def
  by (rule removing.gu_syscall) (auto simp: only_removes_def nothing_done_def)

lemma removing_remove_all [guar]: "guarantees only_removes (remove_all p)"
  unfolding remove_all_def
  by (rule removing.gu_syscall) (auto simp: only_removes_def lookup_rm_tree)

lemma same_outsideD: "same_outside A f g \<Longrightarrow> q \<notin> A \<Longrightarrow> lookup g q = lookup f q"
  by (simp add: same_outside_def)

lemma same_outside_mono: "same_outside A f g \<Longrightarrow> A \<subseteq> B \<Longrightarrow> same_outside B f g"
  by (auto simp: same_outside_def)

lemma same_timesD: "same_times A f g \<Longrightarrow> q \<notin> A \<Longrightarrow> mtime g q = mtime f q"
  by (simp add: same_times_def)

lemma same_times_mono: "same_times A f g \<Longrightarrow> A \<subseteq> B \<Longrightarrow> same_times B f g"
  by (auto simp: same_times_def)

lemma guarantees_outside_mono:
  "guarantees (same_outside A) m \<Longrightarrow> A \<subseteq> B \<Longrightarrow> guarantees (same_outside B) m"
  by (auto simp: guarantees_def intro: same_outside_mono)

section \<open>Contents outside a set of paths\<close>

lemma map_of_graft_other:
  assumes "\<not> prefix d q" and "\<not> prefix p q"
  shows "map_of (map (\<lambda>(q, n). (graft p d q, n)) (filter (\<lambda>(q, _). \<not> prefix d q) xs)) q = map_of xs q"
  using assms by (induction xs) (auto simp: graft_def)

lemma lookup_move_other:
  assumes "\<not> prefix d q" and "\<not> prefix p q"
  shows "lookup (move p d t f) q = lookup f q"
  using map_of_graft_other [OF assms, of "ents f"] by (simp add: lookup_def move_def Let_def)

lemma mtime_move_other:
  assumes "\<not> prefix d q" and "\<not> prefix p q" and "q \<noteq> butlast d" "q \<noteq> butlast p"
  shows "mtime (move p d t f) q = mtime f q"
  using map_of_graft_other [OF assms(1,2), of "stamps f"] assms(3,4)
  by (simp add: mtime_def move_def Let_def stamp_def update_conv')

lemma outside_write_file [guar]: "p \<in> A \<Longrightarrow> guarantees (same_outside A) (write_file p c)"
  unfolding write_file_def
  by (rule outside.gu_syscall) (auto simp: same_outside_def write_part_def)

lemma outside_mkdir_all [guar]:
  "above p \<subseteq> A \<Longrightarrow> guarantees (same_outside A) (mkdir_all p)"
  unfolding mkdir_all_def
  by (rule outside.gu_syscall)
    (auto simp: same_outside_def missing_dirs_iff dest!: in_set_takeD)

lemma outside_remove_all [guar]:
  "below p \<subseteq> A \<Longrightarrow> guarantees (same_outside A) (remove_all p)"
  unfolding remove_all_def
  by (rule outside.gu_syscall) (auto simp: same_outside_def lookup_rm_tree)

lemma outside_remove_one [guar]:
  "below p \<subseteq> A \<Longrightarrow> guarantees (same_outside A) (remove_one p)"
  unfolding remove_one_def
  by (rule outside.gu_syscall) (auto simp: same_outside_def nothing_done_def)

lemma outside_rename [guar]:
  "below p \<subseteq> A \<Longrightarrow> below d \<subseteq> A \<Longrightarrow> guarantees (same_outside A) (rename p d)"
  unfolding rename_def
  by (rule outside.gu_syscall)
    (auto simp: same_outside_def nothing_done_def subset_iff intro!: lookup_move_other)

lemma outside_create_temp:
  "(\<And>x. joinp d (pre @ show_nat x) \<in> A) \<Longrightarrow> guarantees (same_outside A) (create_temp d pre)"
  unfolding create_temp_def
  by (rule outside.gu_syscall) (auto simp: same_outside_def nothing_done_def Let_def)

lemma outside_write_open [guar]: "p \<in> A \<Longrightarrow> guarantees (same_outside A) (write_open p c)"
  unfolding write_open_def
  by (rule outside.gu_syscall) (auto simp: same_outside_def fill_def)

section \<open>Modification times outside a set of paths\<close>

lemma times_make_dirs:
  "\<lbrakk>set ps \<subseteq> A; butlast ` set ps \<subseteq> A; q \<notin> A\<rbrakk> \<Longrightarrow> mtime (make_dirs ps t f) q = mtime f q"
  by (induction ps arbitrary: f) (auto simp: make_dirs_def mtime_set_node)

lemma prefix_butlast: "prefix q p \<Longrightarrow> prefix (butlast q) p"
  by (rule prefix_order.trans [OF prefixeq_butlast])

lemma times_write_file [guar]:
  "\<lbrakk>p \<in> A; butlast p \<in> A\<rbrakk> \<Longrightarrow> guarantees (same_times A) (write_file p c)"
  unfolding write_file_def
  by (rule times.gu_syscall) (auto simp: same_times_def write_part_def mtime_set_node)

lemma missing_above: "q \<in> set (take n (missing_dirs f p)) \<Longrightarrow> prefix q p"
  by (auto simp: missing_dirs_iff dest!: in_set_takeD)

lemma times_take_dirs:
  assumes "above p \<subseteq> A" "q \<notin> A"
  shows "mtime (make_dirs (take n (missing_dirs f p)) t f) q = mtime f q"
proof (rule times_make_dirs [OF _ _ assms(2)])
  show "set (take n (missing_dirs f p)) \<subseteq> A"
    using assms(1) by (auto dest!: missing_above)
  show "butlast ` set (take n (missing_dirs f p)) \<subseteq> A"
  proof
    fix x
    assume "x \<in> butlast ` set (take n (missing_dirs f p))"
    then obtain y where "y \<in> set (take n (missing_dirs f p))" and x: "x = butlast y"
      by blast
    then have "prefix x p"
      using missing_above prefix_butlast by metis
    with assms(1) show "x \<in> A"
      by auto
  qed
qed

lemma times_all_dirs:
  "\<lbrakk>above p \<subseteq> A; q \<notin> A\<rbrakk> \<Longrightarrow> mtime (make_dirs (missing_dirs f p) t f) q = mtime f q"
  using times_take_dirs [of p A q "length (missing_dirs f p)" f t] by simp

lemma times_mkdir_all [guar]: "above p \<subseteq> A \<Longrightarrow> guarantees (same_times A) (mkdir_all p)"
  unfolding mkdir_all_def
  by (rule times.gu_syscall) (simp_all add: same_times_def times_take_dirs times_all_dirs)

lemma times_remove_all [guar]: "butlast p \<in> A \<Longrightarrow> below p \<subseteq> A \<Longrightarrow> guarantees (same_times A) (remove_all p)"
  unfolding remove_all_def
  by (rule times.gu_syscall) (auto simp: same_times_def rm_all_def intro!: mtime_rm_tree_other)

lemma times_remove_one [guar]: "butlast p \<in> A \<Longrightarrow> below p \<subseteq> A \<Longrightarrow> guarantees (same_times A) (remove_one p)"
  unfolding remove_one_def
  by (rule times.gu_syscall) (auto simp: same_times_def nothing_done_def rm_all_def intro!: mtime_rm_tree_other)

lemma times_rename [guar]:
  assumes "butlast p \<in> A" "butlast d \<in> A" "below p \<subseteq> A" "below d \<subseteq> A"
  shows "guarantees (same_times A) (rename p d)"
proof -
  have "mtime (move p d t f) q = mtime f q" if "q \<notin> A" for q t f
    using that assms by (intro mtime_move_other) auto
  then show ?thesis
    unfolding rename_def by (intro times.gu_syscall) (auto simp: same_times_def nothing_done_def)
qed

section \<open>Well-formedness\<close>

lemma wf_parent: "\<lbrakk>wf_files f; p \<noteq> []; lookup f p = Some n\<rbrakk> \<Longrightarrow> lookup f (butlast p) = Some Dir"
  by (auto simp: wf_files_def)

lemma wf_ancestor: "\<lbrakk>wf_files f; lookup f q = Some n; strict_prefix r q\<rbrakk> \<Longrightarrow> lookup f r = Some Dir"
proof (induction q arbitrary: n rule: rev_induct)
  case (snoc x q)
  then have "lookup f q = Some Dir" and "prefix r q"
    using wf_parent [of f "q @ [x]" n] by (auto simp: strict_prefix_def)
  with snoc.IH snoc.prems(1) show ?case
    by (cases "r = q") (auto simp: strict_prefix_def)
qed simp

lemma wf_below_absent: "\<lbrakk>wf_files f; lookup f p = None; prefix p q\<rbrakk> \<Longrightarrow> lookup f q = None"
  using wf_ancestor [of f q _ p] by (cases "lookup f q"; cases "p = q") (auto simp: strict_prefix_def)

lemma wf_below_file:
  "\<lbrakk>wf_files f; lookup f p = Some (File c); strict_prefix p q\<rbrakk> \<Longrightarrow> lookup f q = None"
  using wf_ancestor [of f q _ p] by (cases "lookup f q") auto

lemma wf_intro:
  assumes "distinct (map fst (ents f))" "lookup f [] = Some Dir"
    and "\<And>p x n. lookup f (p @ [x]) = Some n \<Longrightarrow> lookup f p = Some Dir"
  shows "wf_files f"
  unfolding wf_files_def
proof (intro conjI allI impI)
  fix p n
  assume "p \<noteq> []" "lookup f p = Some n"
  then show "lookup f (butlast p) = Some Dir"
    using assms(3) [of "butlast p" "last p" n] by simp
qed (use assms in auto)

lemma wf_elim:
  assumes "wf_files f"
  shows "distinct (map fst (ents f))" "lookup f [] = Some Dir"
    "lookup f (p @ [x]) = Some n \<Longrightarrow> lookup f p = Some Dir"
  using assms wf_parent [of f "p @ [x]" n] by (auto simp: wf_files_def)

lemma ents_set_node: "ents (set_node p n t f) = AList.update p n (ents f)"
  by (simp add: set_node_def Let_def)

lemma wf_set_node:
  assumes wf: "wf_files f" and "is_dir f (butlast p)" and "n = Dir \<or> lookup f p \<noteq> Some Dir"
  shows "wf_files (set_node p n t f)"
proof (rule wf_intro)
  show "distinct (map fst (ents (set_node p n t f)))"
    using wf_elim(1) [OF wf] by (simp add: ents_set_node distinct_update)
  show "lookup (set_node p n t f) [] = Some Dir"
    using assms wf_elim(2) [OF wf] by auto
next
  fix q x m
  assume "lookup (set_node p n t f) (q @ [x]) = Some m"
  then show "lookup (set_node p n t f) q = Some Dir"
    using assms wf_elim(3) [OF wf, of q x] by (auto simp: is_dir_def split: if_splits)
qed

lemma wf_rm_tree:
  assumes wf: "wf_files f" and "p \<noteq> []"
  shows "wf_files (rm_tree p kept t f)"
proof (rule wf_intro)
  show "distinct (map fst (ents (rm_tree p kept t f)))"
    using wf_elim(1) [OF wf] by (simp add: rm_tree_def distinct_map_filter)
  show "lookup (rm_tree p kept t f) [] = Some Dir"
    using assms wf_elim(2) [OF wf] by (simp add: lookup_rm_tree)
next
  fix q x m
  assume q: "lookup (rm_tree p kept t f) (q @ [x]) = Some m"
  have "stays kept f (q @ [x]) \<Longrightarrow> stays kept f q"
    by (auto simp: stays_def list_ex_iff split_beta dest: append_prefixD)
  with q show "lookup (rm_tree p kept t f) q = Some Dir"
    using wf_elim(3) [OF wf, of q x] by (auto simp: lookup_rm_tree split: if_splits)
qed

lemma graft_inj: "inj_on (graft p d) {q. \<not> prefix d q}"
  by (auto simp: inj_on_def graft_def prefix_def split: if_splits)

lemma distinct_move: "distinct (map fst xs) \<Longrightarrow>
  distinct (map fst (map (\<lambda>(q, n). (graft p d q, n)) (filter (\<lambda>(q, _). \<not> prefix d q) xs)))"
proof -
  assume d: "distinct (map fst xs)"
  let ?ys = "filter (\<lambda>(q, _). \<not> prefix d q) xs"
  have "map fst (map (\<lambda>(q, n). (graft p d q, n)) ?ys) = map (graft p d) (map fst ?ys)"
    by (simp add: split_beta comp_def)
  moreover have "distinct (map fst ?ys)"
    using d by (rule distinct_map_filter)
  moreover have "inj_on (graft p d) (set (map fst ?ys))"
    by (rule inj_on_subset [OF graft_inj]) auto
  ultimately show ?thesis
    by (metis distinct_map)
qed

lemma wf_move:
  assumes wf: "wf_files f" and p: "lookup f p \<noteq> None" and d: "\<not> is_dir f d" "is_dir f (butlast d)"
    and pd: "\<not> prefix p d"
  shows "wf_files (move p d t f)"
proof -
  have dp: "\<not> prefix d p"
    using wf_ancestor [OF wf, of p _ d] p d(1) pd by (auto simp: is_dir_def strict_prefix_def)
  have "d \<noteq> []"
    using dp by auto
  note look = lookup_move [OF pd dp, of t f]
  show ?thesis
  proof (rule wf_intro)
    show "distinct (map fst (ents (move p d t f)))"
      using distinct_move [OF wf_elim(1) [OF wf]] by (simp add: move_def Let_def)
    show "lookup (move p d t f) [] = Some Dir"
      using wf_elim(2) [OF wf] \<open>d \<noteq> []\<close> pd by (auto simp: look)
  next
    fix q x m
    assume q: "lookup (move p d t f) (q @ [x]) = Some m"
    show "lookup (move p d t f) q = Some Dir"
    proof (cases "prefix d (q @ [x])")
      case False
      then have "\<not> prefix p (q @ [x])" "lookup f (q @ [x]) = Some m"
        using q by (auto simp: look split: if_splits)
      with False show ?thesis
        using wf_elim(3) [OF wf, of q x m] by (auto simp: look)
    next
      case True
      show ?thesis
      proof (cases "prefix d q")
        case True
        then have "lookup f ((p @ drop (length d) q) @ [x]) = Some m"
          using q by (auto simp: look prefix_length_le)
        with True show ?thesis
          using wf_elim(3) [OF wf, of "p @ drop (length d) q" x m] by (simp add: look)
      next
        case False
        with True have dq: "d = q @ [x]"
          by simp
        with pd have "\<not> prefix p q"
          by auto
        with False have "lookup (move p d t f) q = lookup f q"
          by (rule lookup_move_other)
        with d(2) dq show ?thesis
          by (simp add: is_dir_def)
      qed
    qed
  qed
qed

lemma missing_dirs_ordered: "sorted_wrt (\<lambda>q r. length q < length r) (missing_dirs f p)"
proof -
  have "sorted_wrt (\<lambda>q r. length q < length r) (ancestors p)"
    unfolding ancestors_def by (auto simp: sorted_wrt_iff_nth_less simp del: upt_Suc)
  then show ?thesis
    unfolding missing_dirs_def by (rule sorted_wrt_filter)
qed

lemma take_ordered:
  assumes "sorted_wrt (\<lambda>q r. length q < length r) xs" "x \<in> set (take n xs)" "y \<in> set xs"
    "length y < length x"
  shows "y \<in> set (take n xs)"
proof -
  have "sorted_wrt (\<lambda>q r. length q < length r) (take n xs @ drop n xs)"
    using assms(1) by simp
  then have "y \<notin> set (drop n xs)"
    using assms(2,4) unfolding sorted_wrt_append by (meson less_asym)
  moreover have "y \<in> set (take n xs @ drop n xs)"
    using assms(3) by simp
  ultimately show ?thesis
    by (metis Un_iff set_append)
qed

lemma distinct_make_dirs: "distinct (map fst (ents f)) \<Longrightarrow> distinct (map fst (ents (make_dirs ps t f)))"
  by (induction ps arbitrary: f) (auto simp: make_dirs_def ents_set_node distinct_update)

lemma wf_make_dirs:
  assumes wf: "wf_files f" and nf: "\<not> file_above f p" "\<not> is_file f p"
  shows "wf_files (make_dirs (take n (missing_dirs f p)) t f)"
proof (rule wf_intro)
  let ?ps = "take n (missing_dirs f p)"
  show "distinct (map fst (ents (make_dirs ?ps t f)))"
    using wf_elim(1) [OF wf] by (rule distinct_make_dirs)
  show "lookup (make_dirs ?ps t f) [] = Some Dir"
    using wf_elim(2) [OF wf] by simp
next
  let ?ps = "take n (missing_dirs f p)"
  fix q x m
  assume q: "lookup (make_dirs ?ps t f) (q @ [x]) = Some m"
  show "lookup (make_dirs ?ps t f) q = Some Dir"
  proof (cases "q @ [x] \<in> set ?ps")
    case False
    with q show ?thesis
      using wf_elim(3) [OF wf, of q x m] by simp
  next
    case True
    then have qp: "prefix (q @ [x]) p"
      by (rule missing_above)
    then have sp: "strict_prefix q p"
      by (auto simp: strict_prefix_def prefix_def)
    show ?thesis
    proof (cases "lookup f q")
      case None
      with sp have "q \<in> set (missing_dirs f p)"
        by (simp add: missing_dirs_iff strict_prefix_def)
      then have "q \<in> set ?ps"
        by (rule take_ordered [OF missing_dirs_ordered True]) simp
      then show ?thesis
        by simp
    next
      case (Some k)
      have "k = Dir"
      proof (cases k)
        case (File c)
        with Some sp nf(1) show ?thesis
          unfolding file_above_iff by blast
      qed
      with Some show ?thesis
        by simp
    qed
  qed
qed

lemma wf_take_all: "\<lbrakk>wf_files f; \<not> file_above f p; \<not> is_file f p\<rbrakk> \<Longrightarrow>
    wf_files (make_dirs (missing_dirs f p) t f)"
  using wf_make_dirs [of f p "length (missing_dirs f p)" t] by simp

lemma wf_fill: "wf_files f \<Longrightarrow> wf_files (fill p c t f)"
proof (cases "is_file f p")
  case True
  assume wf: "wf_files f"
  with True have "p \<noteq> []" "lookup f p \<noteq> Some Dir"
    by (auto simp: is_file_iff wf_files_def)
  with wf True show ?thesis
    using wf_parent [OF wf \<open>p \<noteq> []\<close>]
    by (auto simp: fill_def is_dir_def is_file_iff intro!: wf_set_node)
qed (simp add: fill_def)

lemma wf_write_file [guar]: "guarantees keeps_wf (write_file p c)"
  unfolding write_file_def
  by (rule wfr.gu_syscall) (auto simp: keeps_wf_def write_part_def is_dir_def intro!: wf_set_node)

lemma wf_mkdir_all [guar]: "guarantees keeps_wf (mkdir_all p)"
  unfolding mkdir_all_def
  by (rule wfr.gu_syscall) (auto simp: keeps_wf_def wf_make_dirs wf_take_all)

lemma wf_remove_all [guar]: "p \<noteq> [] \<Longrightarrow> guarantees keeps_wf (remove_all p)"
  unfolding remove_all_def
  by (rule wfr.gu_syscall) (auto simp: keeps_wf_def rm_all_def wf_rm_tree)

lemma wf_remove_one [guar]: "p \<noteq> [] \<Longrightarrow> guarantees keeps_wf (remove_one p)"
  unfolding remove_one_def
  by (rule wfr.gu_syscall) (auto simp: keeps_wf_def rm_all_def nothing_done_def wf_rm_tree)

lemma wf_rename [guar]: "guarantees keeps_wf (rename p d)"
  unfolding rename_def
  by (rule wfr.gu_syscall) (auto simp: keeps_wf_def nothing_done_def intro!: wf_move)

lemma wf_create_temp [guar]: "guarantees keeps_wf (create_temp d pre)"
  unfolding create_temp_def
  by (rule wfr.gu_syscall)
    (auto simp: keeps_wf_def nothing_done_def Let_def is_dir_def intro!: wf_set_node)

lemma wf_write_open [guar]: "guarantees keeps_wf (write_open p c)"
  unfolding write_open_def
  by (rule wfr.gu_syscall) (auto simp: keeps_wf_def wf_fill)

end
