(* ===== verification/Calls.thy ===== *)
theory Calls
imports Frames
begin

text \<open>
  Reasoning about the calls of programs and libraries a computation makes.  \<open>only_calls P\<close> says that
  every call it makes satisfies \<open>P\<close>, whatever the outcome.  \<open>follows cs\<close> says that it makes the
  calls of the fixed list \<open>cs\<close> in this order: all of them when it returns a value, a beginning of
  the list otherwise.
\<close>

section \<open>Relations on the history of calls\<close>

text \<open>The interface: a reflexive and transitive relation on histories carries over from the calls to
  a computation.\<close>

definition relates :: "(call list \<Rightarrow> call list \<Rightarrow> bool) \<Rightarrow> 'a io \<Rightarrow> bool" where
  "relates R m \<longleftrightarrow> (\<forall>w. R (trace w) (trace (snd (m w))))"

lemma relatesD: "relates R m \<Longrightarrow> m w = (r, v) \<Longrightarrow> R (trace w) (trace v)"
  unfolding relates_def by (metis snd_conv)

locale calls_rel =
  fixes R :: "call list \<Rightarrow> call list \<Rightarrow> bool"
  assumes calls_refl: "R h h"
    and calls_trans: "R h i \<Longrightarrow> R i j \<Longrightarrow> R h j"
begin

lemma re_return: "relates R (return x)"
  by (simp add: relates_def return_def calls_refl)

lemma re_raise: "relates R (raise e)"
  by (simp add: relates_def raise_def calls_refl)

lemma re_panic: "relates R panic"
  by (simp add: relates_def panic_def calls_refl)

lemma re_logf: "relates R (logf s)"
  by (simp add: relates_def logf_def calls_refl)

lemma re_seq: "relates R m \<Longrightarrow> (\<And>x. relates R (k x)) \<Longrightarrow> relates R (seq m k)"
  unfolding relates_def seq_def
  by (auto split: prod.splits res.splits) (metis calls_trans snd_conv)+

lemma re_after: "relates R m \<Longrightarrow> relates R n \<Longrightarrow> relates R (after m n)"
  by (simp add: after_def re_seq)

lemma re_on_err: "relates R m \<Longrightarrow> (\<And>e. relates R (h e)) \<Longrightarrow> relates R (on_err m h)"
  unfolding relates_def on_err_def
  by (auto split: prod.splits res.splits) (metis calls_trans snd_conv)+

lemma re_wrapped: "relates R m \<Longrightarrow> relates R (wrapped s m)"
  by (simp add: wrapped_def re_on_err re_raise)

lemma re_attempt: "relates R m \<Longrightarrow> relates R (attempt m)"
  unfolding relates_def attempt_def
  by (auto split: prod.splits res.splits) (metis snd_conv)+

lemma re_ignore: "relates R m \<Longrightarrow> relates R (ignore m)"
  by (simp add: ignore_def re_seq re_attempt re_return)

lemma re_deferred: "relates R m \<Longrightarrow> relates R d \<Longrightarrow> relates R (deferred m d)"
  unfolding relates_def deferred_def
  by (auto split: prod.splits res.splits) (metis calls_trans snd_conv)+

lemma re_for_each: "(\<And>x. x \<in> set xs \<Longrightarrow> relates R (f x)) \<Longrightarrow> relates R (for_each xs f)"
  by (induction xs) (auto intro: re_after re_return)

lemma re_syscall: "relates R (syscall mk full part)"
  unfolding relates_def
proof
  fix w
  obtain s v where t: "tick w = (s, v)"
    by fastforce
  then have "trace v = trace w"
    using tick_fs(2) [of w] by simp
  with t show "R (trace w) (trace (snd (syscall mk full part w)))"
    by (auto simp: syscall_def calls_refl split: prod.splits plan.splits sum.splits)
qed

lemma re_extern:
  assumes "\<And>h. R h (h @ [c])"
  shows "relates R (extern sh c)"
  unfolding relates_def
proof
  fix w
  show "R (trace w) (trace (snd (extern sh c w)))"
    using assms [of "trace w"]
    by (auto simp: extern_def Let_def calls_refl split: prod.splits dest!: tick_run)
qed

lemma re_files:
  "relates R (stat p)" "relates R (read_file p)" "relates R (write_file p x)" "relates R (mkdir_all p)"
  "relates R (remove_all p)" "relates R (remove_one p)" "relates R (rename p q)" "relates R (read_dir p)"
  "relates R (create_temp p x)" "relates R (write_open p x)" "relates R (sync_open p)" "relates R (close_open p)"
  unfolding stat_def read_file_def write_file_def mkdir_all_def remove_all_def remove_one_def rename_def
    read_dir_def create_temp_def write_open_def sync_open_def close_open_def
  by (rule re_syscall)+

lemmas re_rules =
  re_return re_raise re_panic re_logf re_seq re_after re_on_err re_wrapped re_attempt re_ignore
  re_deferred re_for_each re_files

end

definition grows :: "(call \<Rightarrow> bool) \<Rightarrow> call list \<Rightarrow> call list \<Rightarrow> bool" where
  "grows P h i \<longleftrightarrow> (\<exists>cs. i = h @ cs \<and> (\<forall>c \<in> set cs. P c))"

interpretation calling: calls_rel "grows P" for P
proof (unfold_locales, unfold grows_def)
  show "\<exists>cs. h = h @ cs \<and> (\<forall>c \<in> set cs. P c)" for h
    by (rule exI [of _ "[]"]) simp
next
  fix h i j
  assume "\<exists>cs. i = h @ cs \<and> (\<forall>c \<in> set cs. P c)" "\<exists>cs. j = i @ cs \<and> (\<forall>c \<in> set cs. P c)"
  then show "\<exists>cs. j = h @ cs \<and> (\<forall>c \<in> set cs. P c)"
    by (metis (no_types, opaque_lifting) UnE append_assoc set_append)
qed

abbreviation only_calls :: "(call \<Rightarrow> bool) \<Rightarrow> 'a io \<Rightarrow> bool" where
  "only_calls P \<equiv> relates (grows P)"

lemmas [guar] = calling.re_rules

lemma only_calls_extern [guar]: "P c \<Longrightarrow> only_calls P (extern sh c)"
  by (rule calling.re_extern) (auto simp: grows_def)

lemma only_calls_mono: "only_calls P m \<Longrightarrow> (\<And>c. P c \<Longrightarrow> Q c) \<Longrightarrow> only_calls Q m"
  by (fastforce simp: relates_def grows_def)

section \<open>A fixed list of calls\<close>

definition follows :: "call list \<Rightarrow> 'a io \<Rightarrow> bool" where
  "follows cs m \<longleftrightarrow> (\<forall>w r v. m w = (r, v) \<longrightarrow>
     (\<exists>n \<le> length cs. trace v = trace w @ take n cs \<and> ((\<exists>x. r = Ok x) \<longrightarrow> n = length cs)))"

lemma followsD:
  assumes "follows cs m" "m w = (r, v)"
  obtains n where "n \<le> length cs" "trace v = trace w @ take n cs" "\<And>x. r = Ok x \<Longrightarrow> n = length cs"
  using assms unfolding follows_def by blast

lemma followsI:
  assumes "\<And>w r v. m w = (r, v) \<Longrightarrow>
    (\<exists>n \<le> length cs. trace v = trace w @ take n cs \<and> ((\<exists>x. r = Ok x) \<longrightarrow> n = length cs))"
  shows "follows cs m"
  using assms unfolding follows_def by blast

lemma follows_Ok: "follows cs m \<Longrightarrow> m w = (Ok x, v) \<Longrightarrow> trace v = trace w @ cs"
  by (erule (1) followsD) auto

named_theorems follow \<open>the calls of a computation, in order\<close>

lemma follows_return [follow]: "follows [] (return x)"
  by (simp add: follows_def return_def)

lemma follows_raise: "follows cs (raise e)"
  by (auto simp: follows_def raise_def)

lemma follows_seq [follow]:
  assumes m: "follows cs m" and k: "\<And>x. follows ds (k x)"
  shows "follows (cs @ ds) (seq m k)"
proof (rule followsI)
  fix w r v
  assume "seq m k w = (r, v)"
  then show "\<exists>n \<le> length (cs @ ds). trace v = trace w @ take n (cs @ ds) \<and> ((\<exists>x. r = Ok x) \<longrightarrow> n = length (cs @ ds))"
  proof (cases rule: seq_cases)
    case (through x u)
    from follows_Ok [OF m through(1)] have u: "trace u = trace w @ cs" .
    obtain n where "n \<le> length ds" "trace v = trace u @ take n ds" "\<And>y. r = Ok y \<Longrightarrow> n = length ds"
      using followsD [OF k through(2)] by blast
    then show ?thesis
      by (intro exI [of _ "length cs + n"]) (auto simp: u)
  next
    case (stopped r')
    obtain n where "n \<le> length cs" "trace v = trace w @ take n cs"
      using followsD [OF m stopped(1)] by blast
    then show ?thesis
      using stopped(3) by (intro exI [of _ n]) auto
  qed
qed

lemma follows_after [follow]: "follows cs m \<Longrightarrow> follows ds n \<Longrightarrow> follows (cs @ ds) (after m n)"
  by (simp add: after_def follows_seq)

lemma follows_wrapped [follow]: "follows cs m \<Longrightarrow> follows cs (wrapped s m)"
proof (rule followsI)
  fix w r v
  assume m: "follows cs m" and "wrapped s m w = (r, v)"
  then obtain r' where r': "m w = (r', v)" "\<And>x. r = Ok x \<Longrightarrow> r' = Ok x"
    by (auto simp: wrapped_def on_err_def raise_def split: prod.splits res.splits)
  with followsD [OF m r'(1)]
  show "\<exists>n \<le> length cs. trace v = trace w @ take n cs \<and> ((\<exists>x. r = Ok x) \<longrightarrow> n = length cs)"
    by metis
qed

lemma follows_silent:
  assumes "only_calls (\<lambda>_. False) m"
  shows "follows [] m"
  using relatesD [OF assms] by (auto simp: follows_def grows_def)

lemma follows_mkdir_all [follow]: "follows [] (mkdir_all p)"
  by (rule follows_silent) (rule guar)

lemma follows_for_each [follow]:
  assumes "\<And>x. x \<in> set xs \<Longrightarrow> follows (c x) (f x)"
  shows "follows (concat (map c xs)) (for_each xs f)"
  using assms by (induction xs) (auto intro: follow)

lemma follows_extern [follow]: "follows [c] (extern sh c)"
proof (rule followsI)
  fix w r v
  assume "extern sh c w = (r, v)"
  then have "trace v = trace w @ [c] \<or> trace v = trace w \<and> r = Crashed"
    by (auto simp: extern_def Let_def split: prod.splits if_splits dest!: tick_run)
  then show "\<exists>n \<le> length [c]. trace v = trace w @ take n [c] \<and> ((\<exists>x. r = Ok x) \<longrightarrow> n = length [c])"
    by (auto intro: exI [of _ "0::nat"] exI [of _ "1::nat"])
qed

section \<open>Library calls\<close>

text \<open>A call whose error the code wraps with a prefix; the reply goes on.\<close>

definition lib_call :: "shell \<Rightarrow> string \<Rightarrow> call \<Rightarrow> reply io" where
  "lib_call sh pre c =
     wrapped pre (seq (extern sh c) (\<lambda>r. case failure r of Some e \<Rightarrow> raise e | None \<Rightarrow> return r))"

lemma follows_lib_call [follow]: "follows [c] (lib_call sh pre c)"
proof -
  have "follows [] (case failure r of Some e \<Rightarrow> raise e | None \<Rightarrow> return r)" for r
    by (auto intro: follow follows_raise split: option.split)
  from follows_wrapped [OF follows_seq [OF follows_extern this]] show ?thesis
    by (simp add: lib_call_def)
qed

lemma lib_call_Ok:
  "lib_call sh pre c w = (Ok r, v) \<Longrightarrow>
     sh (trace w) c (fs w) = (r, fs v) \<and> failure r = None \<and> trace v = trace w @ [c]"
  by (auto simp: lib_call_def run_simps split: option.splits dest!: extern_Ok)

lemma only_calls_lib_call [guar]: "P c \<Longrightarrow> only_calls P (lib_call sh pre c)"
  unfolding lib_call_def by (intro guar) (auto split: option.split intro!: guar)

text \<open>A contract of the calls in \<open>P\<close>: they keep what lies outside \<open>A\<close>, and well-formedness.\<close>

definition confined :: "shell \<Rightarrow> (call \<Rightarrow> bool) \<Rightarrow> path set \<Rightarrow> bool" where
  "confined sh P A \<longleftrightarrow> (\<forall>h c f. P c \<longrightarrow>
     same_outside A f (snd (sh h c f)) \<and> keeps_wf f (snd (sh h c f)))"

lemma outside_confined: "confined sh P A \<Longrightarrow> P c \<Longrightarrow> guarantees (same_outside A) (extern sh c)"
  by (rule outside.gu_extern) (simp add: confined_def)

lemma wf_confined: "confined sh P A \<Longrightarrow> P c \<Longrightarrow> guarantees keeps_wf (extern sh c)"
  by (rule wfr.gu_extern) (simp add: confined_def)

lemma outside_lib_call: "confined sh P A \<Longrightarrow> P c \<Longrightarrow> guarantees (same_outside A) (lib_call sh pre c)"
  unfolding lib_call_def
  by (auto split: option.split intro!: guar outside_confined [of sh P A])

lemma wf_lib_call: "confined sh P A \<Longrightarrow> P c \<Longrightarrow> guarantees keeps_wf (lib_call sh pre c)"
  unfolding lib_call_def
  by (auto split: option.split intro!: guar wf_confined [of sh P A])

end
