(* ===== verification/Net.thy ===== *)
theory Net
imports Prelude
begin

text \<open>
  The functions of Go's package net that the validation of the configuration relies on, ParseIP
  and ParseCIDR, as net/netip implements them: dotted decimal, hexadecimal groups with one
  ellipsis and an embedded dotted decimal at the end.  An address with a zone is refused, as both
  functions do.
\<close>

section \<open>Dotted decimal\<close>

definition digit_value :: "char \<Rightarrow> nat option" where
  "digit_value c = (let n = (of_char c :: nat) in if 48 \<le> n \<and> n \<le> 57 then Some (n - 48) else None)"

text \<open>The previous character, the field being read and its number of digits, the fields before.\<close>

fun v4_loop :: "char option \<Rightarrow> nat \<Rightarrow> nat \<Rightarrow> nat list \<Rightarrow> string \<Rightarrow> nat list option" where
  "v4_loop prev val len fields [] = (if length fields < 3 then None else Some (fields @ [val]))"
| "v4_loop prev val len fields (c # cs) =
     (case digit_value c of
        Some d \<Rightarrow>
          if len = 1 \<and> val = 0 then None
          else if 255 < val * 10 + d then None
          else v4_loop (Some c) (val * 10 + d) (len + 1) fields cs
      | None \<Rightarrow>
          if c = CHR ''.'' then
            if prev = None \<or> cs = [] \<or> prev = Some CHR ''.'' then None
            else if length fields = 3 then None
            else v4_loop (Some c) 0 0 (fields @ [val]) cs
          else None)"

definition parse_v4 :: "string \<Rightarrow> nat list option" where
  "parse_v4 s = v4_loop None 0 0 [] s"

section \<open>Hexadecimal groups\<close>

definition hex_digit_value :: "char \<Rightarrow> nat option" where
  "hex_digit_value c =
     (let n = (of_char c :: nat)
      in if 48 \<le> n \<and> n \<le> 57 then Some (n - 48)
         else if 97 \<le> n \<and> n \<le> 102 then Some (n - 87)
         else if 65 \<le> n \<and> n \<le> 70 then Some (n - 55) else None)"

definition hex_number :: "string \<Rightarrow> nat" where
  "hex_number ds = foldl (\<lambda>acc c. acc * 16 + (case hex_digit_value c of Some d \<Rightarrow> d | None \<Rightarrow> 0)) 0 ds"

text \<open>The hexadecimal digits at the front, what follows them, and the two bytes they stand for.\<close>

definition group_digits :: "string \<Rightarrow> string" where
  "group_digits s = takeWhile (\<lambda>c. hex_digit_value c \<noteq> None) s"

definition group_rest :: "string \<Rightarrow> string" where
  "group_rest s = drop (length (group_digits s)) s"

definition add_group :: "nat list \<Rightarrow> string \<Rightarrow> nat list" where
  "add_group ip s = ip @ [hex_number (group_digits s) div 256, hex_number (group_digits s) mod 256]"

lemma length_add_group [simp]: "length (add_group ip s) = length ip + 2"
  by (simp add: add_group_def)

text \<open>The place of the ellipsis, the bytes read so far, and the rest; on success the same at the end
  of the loop.\<close>

function v6_loop :: "nat option \<Rightarrow> nat list \<Rightarrow> string \<Rightarrow> (nat option \<times> nat list \<times> string) option" where
  "v6_loop ell ip s =
     (if 16 \<le> length ip then Some (ell, ip, s)
      else if group_digits s = [] \<or> 4 < length (group_digits s) then None
      else if group_rest s \<noteq> [] \<and> hd (group_rest s) = CHR ''.'' then
        if ell = None \<and> length ip \<noteq> 12 then None
        else if 16 < length ip + 4 then None
        else (case parse_v4 s of None \<Rightarrow> None | Some fs \<Rightarrow> Some (ell, ip @ fs, []))
      else if group_rest s = [] then Some (ell, add_group ip s, [])
      else if hd (group_rest s) \<noteq> CHR '':'' \<or> tl (group_rest s) = [] then None
      else if hd (tl (group_rest s)) = CHR '':'' then
        if ell \<noteq> None then None
        else if tl (tl (group_rest s)) = [] then Some (Some (length ip + 2), add_group ip s, [])
        else v6_loop (Some (length ip + 2)) (add_group ip s) (tl (tl (group_rest s)))
      else v6_loop ell (add_group ip s) (tl (group_rest s)))"
  by pat_completeness auto
termination
  by (relation "measure (\<lambda>(_, ip, _). 16 - length ip)") auto

text \<open>After the loop: everything must be used, and the ellipsis stands for at least one group.\<close>

fun finish_v6 :: "(nat option \<times> nat list \<times> string) option \<Rightarrow> nat list option" where
  "finish_v6 None = None"
| "finish_v6 (Some (ell, ip, rest)) =
     (if rest \<noteq> [] then None
      else if length ip < 16 then
        (case ell of None \<Rightarrow> None
         | Some e \<Rightarrow> Some (take e ip @ replicate (16 - length ip) 0 @ drop e ip))
      else if ell \<noteq> None then None else Some ip)"

definition parse_v6 :: "string \<Rightarrow> nat list option" where
  "parse_v6 s =
     (if take 2 s = [CHR '':'', CHR '':''] then
        if drop 2 s = [] then Some (replicate 16 0) else finish_v6 (v6_loop (Some 0) [] (drop 2 s))
      else finish_v6 (v6_loop None [] s))"

section \<open>Addresses\<close>

text \<open>The bit length of the family and the sixteen bytes.\<close>

definition parse_addr :: "string \<Rightarrow> (nat \<times> nat list) option" where
  "parse_addr s =
     (if CHR ''%'' \<in> set s then None
      else case dropWhile (\<lambda>c. c \<noteq> CHR ''.'' \<and> c \<noteq> CHR '':'') s of
          [] \<Rightarrow> None
        | c # _ \<Rightarrow>
            if c = CHR ''.'' then
              map_option (\<lambda>fs. (32, replicate 10 0 @ [255, 255] @ fs)) (parse_v4 s)
            else map_option (\<lambda>ip. (128, ip)) (parse_v6 s))"

definition ParseIP :: "string \<Rightarrow> nat list option" where
  "ParseIP s = map_option snd (parse_addr s)"

text \<open>dtoi: the decimal number at the front; too large a number and no digit at all are refused, and
  ParseCIDR refuses anything behind it.\<close>

fun dtoi_loop :: "nat \<Rightarrow> string \<Rightarrow> nat option" where
  "dtoi_loop n [] = Some n"
| "dtoi_loop n (c # cs) =
     (case digit_value c of None \<Rightarrow> None
      | Some d \<Rightarrow> if 16777215 \<le> n * 10 + d then None else dtoi_loop (n * 10 + d) cs)"

definition dtoi_all :: "string \<Rightarrow> nat option" where
  "dtoi_all s = (if s = [] then None else dtoi_loop 0 s)"

definition ParseCIDR :: "string \<Rightarrow> (nat list \<times> nat) option" where
  "ParseCIDR s =
     (case cut s CHR ''/'' of (addr, bitmask, found) \<Rightarrow>
        if \<not> found then None
        else (case parse_addr addr of None \<Rightarrow> None
          | Some (bits, ip) \<Rightarrow>
              (case dtoi_all bitmask of None \<Rightarrow> None
               | Some n \<Rightarrow> if bits < n then None else Some (ip, n))))"

section \<open>Facts\<close>

declare v6_loop.simps [simp del]

lemma digit_value_char [simp]: "d < 10 \<Longrightarrow> digit_value (char_of (48 + d)) = Some d"
  by (simp add: digit_value_def)

lemma show_nat_small:
  "n < 10 \<Longrightarrow> show_nat n = [char_of (48 + n)]"
  "10 \<le> n \<Longrightarrow> n < 100 \<Longrightarrow> show_nat n = [char_of (48 + n div 10), char_of (48 + n mod 10)]"
  "100 \<le> n \<Longrightarrow> n < 1000 \<Longrightarrow>
     show_nat n = [char_of (48 + n div 10 div 10), char_of (48 + n div 10 mod 10), char_of (48 + n mod 10)]"
proof -
  show "n < 10 \<Longrightarrow> show_nat n = [char_of (48 + n)]"
    "10 \<le> n \<Longrightarrow> n < 100 \<Longrightarrow> show_nat n = [char_of (48 + n div 10), char_of (48 + n mod 10)]"
    by (simp_all add: show_nat.simps)
  assume "100 \<le> n" "n < 1000"
  then have "\<not> n < 10" "\<not> n div 10 < 10" "n div 10 div 10 < 10"
    by auto
  then show "show_nat n = [char_of (48 + n div 10 div 10), char_of (48 + n div 10 mod 10), char_of (48 + n mod 10)]"
    by (simp add: show_nat.simps [of n] show_nat.simps [of "n div 10"] show_nat.simps [of "n div 10 div 10"])
qed

lemma not_dot: "digit_value (CHR ''.'') = None" "digit_value (CHR '':'') = None" "digit_value (CHR ''%'') = None"
  by (simp_all add: digit_value_def)

lemma v4_loop_number:
  assumes "n \<le> 255"
  shows "\<exists>c len. c \<noteq> CHR ''.'' \<and> v4_loop prev 0 0 fs (show_nat n @ r) = v4_loop (Some c) n len fs r"
proof -
  have dot: "char_of (48 + d) \<noteq> CHR ''.''" if "d < 10" for d :: nat
    using digit_value_char [OF that] not_dot by (metis option.distinct(1))
  have three: "v4_loop prev 0 0 fs (char_of (48 + x) # char_of (48 + y) # char_of (48 + z) # r) =
      v4_loop (Some (char_of (48 + z))) ((x * 10 + y) * 10 + z) (Suc (Suc (Suc 0))) fs r"
    if "x < 10" "x \<noteq> 0" "y < 10" "z < 10" "(x * 10 + y) * 10 + z \<le> 255" for x y z :: nat
    using that by simp
  have two: "v4_loop prev 0 0 fs (char_of (48 + x) # char_of (48 + y) # r) =
      v4_loop (Some (char_of (48 + y))) (x * 10 + y) (Suc (Suc 0)) fs r"
    if "x < 10" "x \<noteq> 0" "y < 10" for x y :: nat
    using that by simp
  consider "n < 10" | "10 \<le> n" "n < 100" | "100 \<le> n" "n < 1000"
    using assms by linarith
  then show ?thesis
  proof cases
    case 1
    then show ?thesis
      using dot [of n] by (auto simp: show_nat_small)
  next
    case 2
    then have "n div 10 * 10 + n mod 10 = n" "n div 10 < 10" "n div 10 \<noteq> 0" "n mod 10 < 10"
      by auto
    with two [of "n div 10" "n mod 10"] dot [of "n mod 10"] show ?thesis
      unfolding show_nat_small(2) [OF 2] by (metis append_Cons append_Nil)
  next
    case 3
    have "n div 10 div 10 < 10" "n div 10 div 10 \<noteq> 0" "n div 10 mod 10 < 10" "n mod 10 < 10"
      "(n div 10 div 10 * 10 + n div 10 mod 10) * 10 + n mod 10 = n"
      using 3 by auto
    with three [of "n div 10 div 10" "n div 10 mod 10" "n mod 10"] dot [of "n mod 10"] assms show ?thesis
      unfolding show_nat_small(3) [OF 3] by (metis append_Cons append_Nil)
  qed
qed

lemma v4_loop_dot:
  "c \<noteq> CHR ''.'' \<Longrightarrow> r \<noteq> [] \<Longrightarrow> length fs < 3 \<Longrightarrow>
     v4_loop (Some c) n len fs (CHR ''.'' # r) = v4_loop (Some CHR ''.'') 0 0 (fs @ [n]) r"
  by (simp add: digit_value_def)

lemma show_nat_neq_Nil [simp]: "show_nat n \<noteq> []"
  by (subst show_nat.simps) simp

definition dotted :: "nat \<Rightarrow> nat \<Rightarrow> nat \<Rightarrow> nat \<Rightarrow> string" where
  "dotted a b c d = show_nat a @ CHR ''.'' # show_nat b @ CHR ''.'' # show_nat c @ CHR ''.'' # show_nat d"

lemma parse_v4_dotted:
  assumes "a \<le> 255" "b \<le> 255" "c \<le> 255" "d \<le> 255"
  shows "parse_v4 (dotted a b c d) = Some [a, b, c, d]"
proof -
  have step: "v4_loop prev 0 0 fs (show_nat n @ CHR ''.'' # r) = v4_loop (Some CHR ''.'') 0 0 (fs @ [n]) r"
    if "n \<le> 255" "r \<noteq> []" "length fs < 3" for prev fs n r
    using v4_loop_number [OF that(1), of prev fs "CHR ''.'' # r"] v4_loop_dot that(2,3) by metis
  have last: "v4_loop prev 0 0 fs (show_nat n) = Some (fs @ [n])" if "n \<le> 255" "length fs = 3" for prev fs n
    using v4_loop_number [OF that(1), of prev fs "[]"] that(2) by auto
  show ?thesis
    using assms by (simp add: parse_v4_def dotted_def step last)
qed

lemma show_nat_plain: "c \<in> set (show_nat n) \<Longrightarrow> c \<noteq> CHR ''%'' \<and> c \<noteq> CHR '':'' \<and> c \<noteq> CHR ''.''"
proof -
  assume "c \<in> set (show_nat n)"
  then obtain k :: nat where "k < 10" "c = char_of (48 + k)"
    using show_nat_digits by blast
  then have "digit_value c = Some k"
    by simp
  then show ?thesis
    using not_dot by auto
qed

lemma dotted_plain: "CHR ''%'' \<notin> set (dotted a b c d)" "CHR ''/'' \<notin> set (dotted a b c d)"
  using show_nat_plain show_nat_no_slash by (auto simp: dotted_def)

lemma parse_addr_dotted:
  assumes "a \<le> 255" "b \<le> 255" "c \<le> 255" "d \<le> 255"
  shows "parse_addr (dotted a b c d) = Some (32, replicate 10 0 @ [255, 255, a, b, c, d])"
proof -
  have "\<forall>x \<in> set (show_nat a). x \<noteq> CHR ''.'' \<and> x \<noteq> CHR '':''"
    using show_nat_plain by blast
  then have "dropWhile (\<lambda>c. c \<noteq> CHR ''.'' \<and> c \<noteq> CHR '':'') (dotted a b c d) =
      CHR ''.'' # show_nat b @ CHR ''.'' # show_nat c @ CHR ''.'' # show_nat d"
    by (simp add: dotted_def dropWhile_append2)
  then show ?thesis
    using parse_v4_dotted [OF assms] dotted_plain(1) by (simp add: parse_addr_def)
qed

lemma dtoi_digits: "k < 1000 \<Longrightarrow> d < 10 \<Longrightarrow> dtoi_loop k (char_of (48 + d) # r) = dtoi_loop (k * 10 + d) r"
  by simp

lemma dtoi_show: "n < 1000 \<Longrightarrow> dtoi_all (show_nat n) = Some n"
proof -
  assume n: "n < 1000"
  have "dtoi_loop 0 (show_nat n) = Some n"
  proof -
    consider "n < 10" | "10 \<le> n" "n < 100" | "100 \<le> n"
      by linarith
    then show ?thesis
    proof cases
      case 2
      have "n div 10 < 10" "n div 10 * 10 + n mod 10 = n"
        using 2 by auto
      then show ?thesis
        unfolding show_nat_small(2) [OF 2] by (simp add: dtoi_digits del: dtoi_loop.simps(2))
    next
      case 3
      have "n div 10 div 10 < 10" "n div 10 mod 10 < 10" "n div 10 < 1000" "n mod 10 < 10"
          "n div 10 div 10 * 10 + n div 10 mod 10 = n div 10" "n div 10 * 10 + n mod 10 = n"
        using n by auto
      then show ?thesis
        unfolding show_nat_small(3) [OF 3 n]
        using dtoi_digits [of 0 "n div 10 div 10"] dtoi_digits [of "n div 10 div 10" "n div 10 mod 10"]
          dtoi_digits [of "n div 10" "n mod 10"] by (simp del: dtoi_loop.simps(2) mult_div_mod_eq)
    qed (simp add: show_nat_small)
  qed
  then show ?thesis
    by (simp add: dtoi_all_def)
qed

lemma ParseIP_of_dotted:
  "\<lbrakk>a \<le> 255; b \<le> 255; c \<le> 255; d \<le> 255\<rbrakk> \<Longrightarrow> ParseIP (dotted a b c d) = Some (replicate 10 0 @ [255, 255, a, b, c, d])"
  by (simp add: ParseIP_def parse_addr_dotted)

lemma ParseCIDR_of_dotted:
  "\<lbrakk>a \<le> 255; b \<le> 255; c \<le> 255; d \<le> 255; n \<le> 32\<rbrakk> \<Longrightarrow>
     ParseCIDR (dotted a b c d @ CHR ''/'' # show_nat n) = Some (replicate 10 0 @ [255, 255, a, b, c, d], n)"
  using cut_found [OF dotted_plain(2), of a b c d "show_nat n"] dtoi_show [of n]
  by (simp add: ParseCIDR_def parse_addr_dotted)

section \<open>The shape of an address\<close>

lemma v4_loop_bytes:
  "\<lbrakk>v4_loop prev val len fs s = Some out; length fs \<le> 3; val \<le> 255; \<forall>x \<in> set fs. x \<le> 255\<rbrakk> \<Longrightarrow>
     length out = 4 \<and> (\<forall>x \<in> set out. x \<le> 255)"
  by (induction prev val len fs s rule: v4_loop.induct) (auto split: if_splits option.splits)

lemma parse_v4_bytes: "parse_v4 s = Some fs \<Longrightarrow> length fs = 4 \<and> (\<forall>x \<in> set fs. x \<le> 255)"
  unfolding parse_v4_def by (erule v4_loop_bytes) simp_all

lemma hex_number_bound: "hex_number ds < 16 ^ length ds"
proof (induction ds rule: rev_induct)
  case (snoc c ds)
  have "(case hex_digit_value c of Some d \<Rightarrow> d | None \<Rightarrow> 0) < (16 :: nat)"
    by (auto simp: hex_digit_value_def Let_def)
  with snoc show ?case
    by (simp add: hex_number_def)
qed (simp add: hex_number_def)

lemma hex_group_bytes:
  assumes "length ds \<le> 4"
  shows "hex_number ds div 256 \<le> 255" "hex_number ds mod 256 \<le> 255"
proof -
  have "(16 :: nat) ^ length ds \<le> 16 ^ 4"
    using assms by (intro power_increasing) simp_all
  with hex_number_bound [of ds] have "hex_number ds < 65536"
    by simp
  then show "hex_number ds div 256 \<le> 255"
    by linarith
  show "hex_number ds mod 256 \<le> 255"
    by (simp add: less_Suc_eq_le [symmetric])
qed

definition v6_bytes :: "nat list \<Rightarrow> bool" where
  "v6_bytes ip \<longleftrightarrow> even (length ip) \<and> length ip \<le> 16 \<and> (\<forall>x \<in> set ip. x \<le> 255)"

lemma v6_loop_bytes:
  "\<lbrakk>v6_loop ell ip s = Some (e, out, r); v6_bytes ip\<rbrakk> \<Longrightarrow> v6_bytes out"
proof (induction ell ip s rule: v6_loop.induct)
  case (1 ell ip s)
  show ?case
  proof (cases "16 \<le> length ip")
    case True
    with "1.prems" show ?thesis
      by (simp add: v6_loop.simps [of ell ip s])
  next
    case False
    have "length ip \<le> 14"
      using False "1.prems"(2) by (auto simp: v6_bytes_def elim!: evenE)
    then have next_bytes: "v6_bytes (add_group ip s)" if "length (group_digits s) \<le> 4"
      using hex_group_bytes [OF that] "1.prems"(2) by (auto simp: v6_bytes_def add_group_def)
    have v4_bytes: "v6_bytes (ip @ fs)" if "parse_v4 s = Some fs" "length ip + 4 \<le> 16" for fs
      using parse_v4_bytes [OF that(1)] that(2) "1.prems"(2) by (auto simp: v6_bytes_def)
    note run = "1.prems"(1) [unfolded v6_loop.simps [of ell ip s]]
    show ?thesis
      using run False "1.IH" [OF False] v4_bytes next_bytes
      by (simp split: if_split_asm option.split_asm)
  qed
qed

lemma finish_v6_bytes:
  assumes "finish_v6 (v6_loop l [] t) = Some ip"
  shows "length ip = 16 \<and> (\<forall>x \<in> set ip. x \<le> 255)"
proof -
  obtain ell out r where run: "v6_loop l [] t = Some (ell, out, r)"
    using assms by (cases "v6_loop l [] t") auto
  have "v6_bytes out"
    by (rule v6_loop_bytes [OF run]) (simp add: v6_bytes_def)
  with assms run show ?thesis
    by (auto simp: v6_bytes_def split: if_splits option.splits) (blast dest: in_set_takeD in_set_dropD)+
qed

lemma parse_v6_bytes: "parse_v6 s = Some ip \<Longrightarrow> length ip = 16 \<and> (\<forall>x \<in> set ip. x \<le> 255)"
  by (auto simp: parse_v6_def dest: finish_v6_bytes split: if_splits)

section \<open>Properties\<close>

text \<open>An address ParseIP accepts is sixteen bytes.\<close>

lemma ParseIP_bytes:
  assumes "ParseIP s = Some ip"
  shows "length ip = 16 \<and> (\<forall>x \<in> set ip. x \<le> 255)"
  using assms by (auto simp: ParseIP_def parse_addr_def split: if_splits list.splits
      dest!: parse_v4_bytes parse_v6_bytes)

lemma ParseIP_bytes_witness: "\<exists>ip. ParseIP ''::'' = Some ip \<and> length ip = 16"
proof -
  have "ParseIP ''::'' = Some (replicate 16 0)"
    by code_simp
  with ParseIP_bytes [OF this] show ?thesis
    by blast
qed

text \<open>Parsing inverts printing: every dotted decimal address is parsed to its four bytes, and
  with a prefix length of at most 32 behind it to the address and that length.\<close>

lemma ParseIP_ParseCIDR_dotted:
  assumes "a \<le> 255" and "b \<le> 255" and "c \<le> 255" and "d \<le> 255" and "n \<le> 32"
  shows "ParseIP (dotted a b c d) = Some (replicate 10 0 @ [255, 255, a, b, c, d]) \<and>
    ParseCIDR (dotted a b c d @ CHR ''/'' # show_nat n) = Some (replicate 10 0 @ [255, 255, a, b, c, d], n)"
  using ParseIP_of_dotted [OF assms(1-4)] ParseCIDR_of_dotted [OF assms] by simp

lemma ParseIP_ParseCIDR_dotted_witness:
  "ParseCIDR ''10.96.0.0/12'' = Some (replicate 10 0 @ [255, 255, 10, 96, 0, 0], 12)"
proof -
  have "dotted 10 96 0 0 @ CHR ''/'' # show_nat 12 = ''10.96.0.0/12''"
    by code_simp
  with ParseIP_ParseCIDR_dotted [of 10 96 0 0 12] show ?thesis
    by simp
qed

end
