(* ===== verification/Api.thy ===== *)
theory Api
imports Net Goio "HOL-Library.Word"
begin

text \<open>
  internal/apis/bootstrap/v1alpha1: the configuration, its defaults and its validation.  The two
  integer types of the source are words of 32 bits read as signed numbers.  A nil slice and an
  empty one differ for the taints only, so these are an optional list.
\<close>

section \<open>Types\<close>

record taint =
  tkey :: string
  tvalue :: string
  teffect :: string

record control_plane_spec =
  mode :: string
  advertiseAddress :: string
  bindPort :: "32 word"
  serviceSubnet :: string
  podSubnet :: string
  clusterDNS :: string

record runtime_spec =
  criSocket :: string
  cgroupDriver :: string

record certificates_spec =
  selfSigned :: bool
  caValidityDays :: "32 word"
  leafValidityDays :: "32 word"
  extraSANs :: "string list"

record node_registration_spec =
  taints :: "taint list option"

record config_spec =
  controlPlane :: control_plane_spec
  runtime :: runtime_spec
  certificates :: certificates_spec
  nodeRegistration :: node_registration_spec

record nanok8s_config =
  apiVersion :: string
  kind :: string
  metadata_name :: string
  spec :: config_spec

definition group_name :: string where "group_name = ''bootstrap.nanok8s.io''"
definition api_version :: string where "api_version = group_name @ ''/v1alpha1''"
definition kind_name :: string where "kind_name = ''NanoK8sConfig''"

definition mode_single :: string where "mode_single = ''single''"
definition driver_systemd :: string where "driver_systemd = ''systemd''"
definition driver_cgroupfs :: string where "driver_cgroupfs = ''cgroupfs''"

text \<open>The zero value, from which decoding and NewDefault start.\<close>

definition zero_config :: nanok8s_config where
  "zero_config = \<lparr>apiVersion = '''', kind = '''', metadata_name = '''',
     spec = \<lparr>controlPlane = \<lparr>mode = '''', advertiseAddress = '''', bindPort = 0, serviceSubnet = '''',
                podSubnet = '''', clusterDNS = ''''\<rparr>,
             runtime = \<lparr>criSocket = '''', cgroupDriver = ''''\<rparr>,
             certificates = \<lparr>selfSigned = False, caValidityDays = 0, leafValidityDays = 0, extraSANs = []\<rparr>,
             nodeRegistration = \<lparr>taints = None\<rparr>\<rparr>\<rparr>"

section \<open>Defaults\<close>

definition default_bind_port :: "32 word" where "default_bind_port = 6443"
definition default_service_subnet :: string where "default_service_subnet = ''10.96.0.0/12''"
definition default_pod_subnet :: string where "default_pod_subnet = ''10.244.0.0/16''"
definition default_cluster_dns :: string where "default_cluster_dns = ''10.96.0.10''"
definition default_cri_socket :: string where "default_cri_socket = ''unix:///var/run/crio/crio.sock''"
definition default_validity_days :: "32 word" where "default_validity_days = 3650"

definition default_taint :: taint where
  "default_taint = \<lparr>tkey = ''node-role.kubernetes.io/control-plane'', tvalue = '''', teffect = ''NoSchedule''\<rparr>"

definition default_control_plane :: "control_plane_spec \<Rightarrow> control_plane_spec" where
  "default_control_plane cp = cp\<lparr>
     mode := (if mode cp = '''' then mode_single else mode cp),
     bindPort := (if bindPort cp = 0 then default_bind_port else bindPort cp),
     serviceSubnet := (if serviceSubnet cp = '''' then default_service_subnet else serviceSubnet cp),
     podSubnet := (if podSubnet cp = '''' then default_pod_subnet else podSubnet cp),
     clusterDNS := (if clusterDNS cp = '''' then default_cluster_dns else clusterDNS cp)\<rparr>"

definition default_runtime :: "runtime_spec \<Rightarrow> runtime_spec" where
  "default_runtime rt = rt\<lparr>
     criSocket := (if criSocket rt = '''' then default_cri_socket else criSocket rt),
     cgroupDriver := (if cgroupDriver rt = '''' then driver_systemd else cgroupDriver rt)\<rparr>"

definition default_certificates :: "certificates_spec \<Rightarrow> certificates_spec" where
  "default_certificates ct = ct\<lparr>
     caValidityDays := (if caValidityDays ct = 0 then default_validity_days else caValidityDays ct),
     leafValidityDays := (if leafValidityDays ct = 0 then default_validity_days else leafValidityDays ct)\<rparr>"

definition default_registration :: "node_registration_spec \<Rightarrow> node_registration_spec" where
  "default_registration nr = nr\<lparr>taints := (if taints nr = None then Some [default_taint] else taints nr)\<rparr>"

definition SetDefaults :: "nanok8s_config \<Rightarrow> nanok8s_config" where
  "SetDefaults c = c\<lparr>
     apiVersion := (if apiVersion c = '''' then api_version else apiVersion c),
     kind := (if kind c = '''' then kind_name else kind c),
     spec := (spec c)\<lparr>
       controlPlane := default_control_plane (controlPlane (spec c)),
       runtime := default_runtime (runtime (spec c)),
       certificates := default_certificates (certificates (spec c)),
       nodeRegistration := default_registration (nodeRegistration (spec c))\<rparr>\<rparr>"

definition NewDefault :: nanok8s_config where
  "NewDefault =
     (let s = spec zero_config
      in SetDefaults (zero_config\<lparr>metadata_name := ''local'',
           spec := s\<lparr>controlPlane := (controlPlane s)\<lparr>advertiseAddress := ''0.0.0.0''\<rparr>,
             certificates := (certificates s)\<lparr>selfSigned := True, extraSANs := [''127.0.0.1'', ''localhost'']\<rparr>\<rparr>\<rparr>))"

section \<open>Validation\<close>

text \<open>The verb q of package fmt, on texts without control or non-ASCII characters other than those
  escaped here.\<close>

definition go_quote :: "string \<Rightarrow> string" where
  "go_quote s = CHR 0x22 # concat (map (\<lambda>c.
      if c = CHR 0x22 \<or> c = CHR 0x5C then [CHR 0x5C, c]
      else if c = CHR 0x0A then [CHR 0x5C, CHR ''n'']
      else if c = CHR 0x0D then [CHR 0x5C, CHR ''r'']
      else if c = CHR 0x09 then [CHR 0x5C, CHR ''t''] else [c]) s) @ [CHR 0x22]"

definition problem_if :: "bool \<Rightarrow> err \<Rightarrow> err list" where
  "problem_if b e = (if b then [e] else [])"

definition cidr_error :: "string \<Rightarrow> err" where
  "cidr_error s = Text (''invalid CIDR address: '' @ s)"

definition control_plane_errors :: "control_plane_spec \<Rightarrow> err list" where
  "control_plane_errors cp =
     problem_if (mode cp \<noteq> mode_single) (Text (''spec.controlPlane.mode must be '' @ go_quote mode_single @ '' in v0''))
     @ (if advertiseAddress cp = '''' then [Text ''spec.controlPlane.advertiseAddress is required'']
        else problem_if (ParseIP (advertiseAddress cp) = None)
          (Text (''spec.controlPlane.advertiseAddress '' @ go_quote (advertiseAddress cp) @ '' is not a valid IP'')))
     @ problem_if (sint (bindPort cp) < 1 \<or> 65535 < sint (bindPort cp))
         (Text (''spec.controlPlane.bindPort '' @ show_int (sint (bindPort cp)) @ '' out of range''))
     @ problem_if (ParseCIDR (serviceSubnet cp) = None)
         (Wrap ''spec.controlPlane.serviceSubnet: '' (cidr_error (serviceSubnet cp)) '''')
     @ problem_if (ParseCIDR (podSubnet cp) = None)
         (Wrap ''spec.controlPlane.podSubnet: '' (cidr_error (podSubnet cp)) '''')
     @ problem_if (ParseIP (clusterDNS cp) = None)
         (Text (''spec.controlPlane.clusterDNS '' @ go_quote (clusterDNS cp) @ '' is not a valid IP''))"

definition runtime_errors :: "runtime_spec \<Rightarrow> err list" where
  "runtime_errors rt =
     problem_if (\<not> has_prefix (criSocket rt) ''unix://'')
       (Text (''spec.runtime.criSocket must start with unix://, got '' @ go_quote (criSocket rt)))
     @ problem_if (cgroupDriver rt \<notin> set [driver_systemd, driver_cgroupfs])
       (Text (''spec.runtime.cgroupDriver must be systemd or cgroupfs, got '' @ go_quote (cgroupDriver rt)))"

definition certificates_errors :: "certificates_spec \<Rightarrow> err list" where
  "certificates_errors ct =
     problem_if (\<not> selfSigned ct) (Text ''spec.certificates.selfSigned=false is not supported in v0'')
     @ problem_if (sint (caValidityDays ct) \<le> 0) (Text ''spec.certificates.caValidityDays must be > 0'')
     @ problem_if (sint (leafValidityDays ct) \<le> 0) (Text ''spec.certificates.leafValidityDays must be > 0'')"

definition taint_effects :: "string list" where
  "taint_effects = [''NoSchedule'', ''PreferNoSchedule'', ''NoExecute'']"

fun taint_errors :: "nat \<Rightarrow> taint list \<Rightarrow> err list" where
  "taint_errors i [] = []"
| "taint_errors i (t # ts) =
     problem_if (tkey t = '''') (Text (''spec.nodeRegistration.taints['' @ show_nat i @ ''].key is required''))
     @ problem_if (teffect t \<notin> set taint_effects)
         (Text (''spec.nodeRegistration.taints['' @ show_nat i @
           ''].effect must be one of NoSchedule/PreferNoSchedule/NoExecute, got '' @ go_quote (teffect t)))
     @ taint_errors (i + 1) ts"

definition validation_errors :: "nanok8s_config \<Rightarrow> err list" where
  "validation_errors c =
     problem_if (apiVersion c \<noteq> api_version)
       (Text (''apiVersion must be '' @ go_quote api_version @ '', got '' @ go_quote (apiVersion c)))
     @ problem_if (kind c \<noteq> kind_name) (Text (''kind must be '' @ go_quote kind_name @ '', got '' @ go_quote (kind c)))
     @ control_plane_errors (controlPlane (spec c))
     @ runtime_errors (runtime (spec c))
     @ certificates_errors (certificates (spec c))
     @ taint_errors 0 (case taints (nodeRegistration (spec c)) of None \<Rightarrow> [] | Some ts \<Rightarrow> ts)"

text \<open>errors.Join of no error is nil.\<close>

definition Validate :: "nanok8s_config \<Rightarrow> err option" where
  "Validate c = (let errs = validation_errors c in if errs = [] then None else Some (Joined errs))"

section \<open>What a valid configuration is\<close>

definition valid_taint :: "taint \<Rightarrow> bool" where
  "valid_taint t \<longleftrightarrow> tkey t \<noteq> '''' \<and> teffect t \<in> {''NoSchedule'', ''PreferNoSchedule'', ''NoExecute''}"

definition valid_config :: "nanok8s_config \<Rightarrow> bool" where
  "valid_config c \<longleftrightarrow>
     (let cp = controlPlane (spec c); rt = runtime (spec c); ct = certificates (spec c) in
       apiVersion c = ''bootstrap.nanok8s.io/v1alpha1'' \<and> kind c = ''NanoK8sConfig'' \<and> mode cp = ''single'' \<and>
       (\<exists>ip. ParseIP (advertiseAddress cp) = Some ip) \<and>
       1 \<le> sint (bindPort cp) \<and> sint (bindPort cp) \<le> 65535 \<and>
       (\<exists>net. ParseCIDR (serviceSubnet cp) = Some net) \<and> (\<exists>net. ParseCIDR (podSubnet cp) = Some net) \<and>
       (\<exists>ip. ParseIP (clusterDNS cp) = Some ip) \<and>
       prefix ''unix://'' (criSocket rt) \<and> cgroupDriver rt \<in> {''systemd'', ''cgroupfs''} \<and>
       selfSigned ct \<and> 0 < sint (caValidityDays ct) \<and> 0 < sint (leafValidityDays ct) \<and>
       (\<forall>ts. taints (nodeRegistration (spec c)) = Some ts \<longrightarrow> (\<forall>t \<in> set ts. valid_taint t)))"

lemma problem_if_Nil [simp]: "problem_if b e = [] \<longleftrightarrow> \<not> b"
  by (simp add: problem_if_def)

lemma taint_errors_Nil: "taint_errors i ts = [] \<longleftrightarrow> (\<forall>t \<in> set ts. valid_taint t)"
  by (induction ts arbitrary: i) (auto simp: valid_taint_def taint_effects_def)

lemma ParseIP_empty: "ParseIP '''' = None"
  by (simp add: ParseIP_def parse_addr_def)

lemma Validate_valid: "Validate c = None \<longleftrightarrow> valid_config c"
  using ParseIP_empty
  by (cases "taints (nodeRegistration (spec c))") (auto simp: Validate_def validation_errors_def control_plane_errors_def runtime_errors_def
      certificates_errors_def taint_errors_Nil valid_config_def Let_def api_version_def group_name_def kind_name_def
      mode_single_def driver_systemd_def driver_cgroupfs_def has_prefix_def split: if_splits option.splits)

section \<open>Facts on the defaults\<close>

lemmas defaults_defs =
  default_control_plane_def default_runtime_def default_certificates_def default_registration_def

lemmas constant_defs =
  api_version_def group_name_def kind_name_def mode_single_def driver_systemd_def default_bind_port_def
  default_service_subnet_def default_pod_subnet_def default_cluster_dns_def default_cri_socket_def
  default_validity_days_def default_taint_def

lemma default_networks:
  "ParseCIDR default_service_subnet \<noteq> None" "ParseCIDR default_pod_subnet \<noteq> None" "ParseIP default_cluster_dns \<noteq> None"
proof -
  have e: "default_service_subnet = dotted 10 96 0 0 @ CHR ''/'' # show_nat 12"
    "default_pod_subnet = dotted 10 244 0 0 @ CHR ''/'' # show_nat 16"
    "default_cluster_dns = dotted 10 96 0 10"
    by code_simp+
  show "ParseCIDR default_service_subnet \<noteq> None" "ParseCIDR default_pod_subnet \<noteq> None" "ParseIP default_cluster_dns \<noteq> None"
    unfolding e by (simp_all only: ParseCIDR_of_dotted ParseIP_of_dotted option.distinct numeral_le_iff le_numeral_extra
        zero_le semiring_norm not_False_eq_True)
qed

lemma default_numbers: "sint default_bind_port = 6443" "sint default_validity_days = 3650"
  by (simp_all add: default_bind_port_def default_validity_days_def)

lemma default_taint_valid: "valid_taint default_taint"
  by (simp add: valid_taint_def default_taint_def)

text \<open>The configuration a user gives who sets no more than what has no default.\<close>

definition minimal_config :: "string \<Rightarrow> nanok8s_config" where
  "minimal_config a =
     (let s = spec zero_config
      in zero_config\<lparr>spec := s\<lparr>controlPlane := (controlPlane s)\<lparr>advertiseAddress := a\<rparr>,
           certificates := (certificates s)\<lparr>selfSigned := True\<rparr>\<rparr>\<rparr>)"

lemma defaults_valid:
  assumes "spec c = (spec zero_config)\<lparr>controlPlane := (controlPlane (spec zero_config))\<lparr>advertiseAddress := a\<rparr>,
      certificates := ct\<rparr>" "selfSigned ct" "caValidityDays ct = 0" "leafValidityDays ct = 0"
    and "apiVersion c = ''''" "kind c = ''''"
  shows "valid_config (SetDefaults c) \<longleftrightarrow> ParseIP a \<noteq> None"
  using assms default_networks default_taint_valid
  by (auto simp: valid_config_def SetDefaults_def defaults_defs Let_def zero_config_def default_numbers
      mode_single_def driver_systemd_def api_version_def group_name_def kind_name_def default_cri_socket_def)

lemma minimal_config_valid: "Validate (SetDefaults (minimal_config a)) = None \<longleftrightarrow> ParseIP a \<noteq> None"
  unfolding Validate_valid
  by (rule defaults_valid [where ct = "(certificates (spec zero_config))\<lparr>selfSigned := True\<rparr>"])
    (simp_all add: minimal_config_def zero_config_def Let_def)

section \<open>Properties\<close>

text \<open>C21: Validate accepts exactly the valid configurations: the two type names, the one mode, an
  address and a DNS address that parse, a port from 1 to 65535, networks that parse, a unix socket, a
  known cgroup driver, self-signed certificates valid for at least a day, and well-formed taints.\<close>

theorem Validate_iff_valid:
  "Validate c = None \<longleftrightarrow> valid_config c"
  by (rule Validate_valid)

text \<open>C32: the defaults are complete: a configuration that sets only the advertise address and
  selfSigned is accepted after SetDefaults exactly if the address parses, and so is the printed
  default configuration.\<close>

theorem SetDefaults_complete:
  "(Validate (SetDefaults (minimal_config a)) = None \<longleftrightarrow> ParseIP a \<noteq> None) \<and> Validate NewDefault = None"
proof -
  have zero: "''0.0.0.0'' = dotted 0 0 0 0"
    by code_simp
  have "ParseIP ''0.0.0.0'' \<noteq> None"
    unfolding zero by (simp add: ParseIP_of_dotted)
  moreover have "valid_config NewDefault \<longleftrightarrow> ParseIP ''0.0.0.0'' \<noteq> None"
    unfolding NewDefault_def Let_def
    by (rule defaults_valid [where ct = "(certificates (spec zero_config))\<lparr>selfSigned := True,
          extraSANs := [''127.0.0.1'', ''localhost'']\<rparr>"]) (simp_all add: zero_config_def)
  ultimately show ?thesis
    using minimal_config_valid unfolding Validate_valid by blast
qed

text \<open>SetDefaults changes zero values only: applied twice it does what it does once, a
  configuration stays as it is exactly if none of the defaulted fields is zero, and an explicit list
  of taints is kept, the empty one too.\<close>

lemma SetDefaults_only_zero:
  "SetDefaults (SetDefaults c) = SetDefaults c \<and>
   (SetDefaults c = c \<longleftrightarrow> apiVersion c \<noteq> '''' \<and> kind c \<noteq> '''' \<and> mode (controlPlane (spec c)) \<noteq> '''' \<and>
      bindPort (controlPlane (spec c)) \<noteq> 0 \<and> serviceSubnet (controlPlane (spec c)) \<noteq> '''' \<and>
      podSubnet (controlPlane (spec c)) \<noteq> '''' \<and> clusterDNS (controlPlane (spec c)) \<noteq> '''' \<and>
      criSocket (runtime (spec c)) \<noteq> '''' \<and> cgroupDriver (runtime (spec c)) \<noteq> '''' \<and>
      caValidityDays (certificates (spec c)) \<noteq> 0 \<and> leafValidityDays (certificates (spec c)) \<noteq> 0 \<and>
      taints (nodeRegistration (spec c)) \<noteq> None) \<and>
   taints (nodeRegistration (spec (SetDefaults c))) =
     (case taints (nodeRegistration (spec c)) of None \<Rightarrow> Some [default_taint] | Some ts \<Rightarrow> Some ts)"
proof -
  obtain av k m s where c: "c = \<lparr>apiVersion = av, kind = k, metadata_name = m, spec = s\<rparr>"
    by (cases c)
  obtain cp rt ct nr where s: "s = \<lparr>controlPlane = cp, runtime = rt, certificates = ct, nodeRegistration = nr\<rparr>"
    by (cases s)
  show ?thesis
    by (cases cp; cases rt; cases ct; cases nr)
      (auto simp: c s SetDefaults_def defaults_defs constant_defs)
qed

end
