(* ===== verification/Paths.thy ===== *)
theory Paths
imports Prelude
begin

text \<open>
  The locations of internal/paths/paths.go, and which of them lie below which.
\<close>

definition config_dir :: path where "config_dir = [''etc'', ''nanok8s'']"
definition config_file :: path where "config_file = [''etc'', ''nanok8s'', ''config.yaml'']"

definition kubernetes_dir :: path where "kubernetes_dir = [''etc'', ''kubernetes'']"
definition pki_dir :: path where "pki_dir = kubernetes_dir @ [''pki'']"
definition etcd_pki_dir :: path where "etcd_pki_dir = pki_dir @ [''etcd'']"
definition manifests_dir :: path where "manifests_dir = kubernetes_dir @ [''manifests'']"
definition kubeconfig_dir :: path where "kubeconfig_dir = kubernetes_dir"
definition admin_kubeconfig :: path where "admin_kubeconfig = kubeconfig_dir @ [''admin.conf'']"
definition kubelet_kubeconfig :: path where "kubelet_kubeconfig = kubeconfig_dir @ [''kubelet.conf'']"
definition cm_kubeconfig :: path where "cm_kubeconfig = kubeconfig_dir @ [''controller-manager.conf'']"
definition sched_kubeconfig :: path where "sched_kubeconfig = kubeconfig_dir @ [''scheduler.conf'']"

definition kubelet_dir :: path where "kubelet_dir = [''var'', ''lib'', ''kubelet'']"
definition kubelet_config_file :: path where "kubelet_config_file = kubelet_dir @ [''config.yaml'']"
definition kubelet_flags_env_file :: path where "kubelet_flags_env_file = kubelet_dir @ [''kubeadm-flags.env'']"

definition etcd_data_dir :: path where "etcd_data_dir = [''var'', ''lib'', ''etcd'']"

definition nanok8s_var_dir :: path where "nanok8s_var_dir = [''var'', ''lib'', ''nanok8s'']"
definition state_dir :: path where "state_dir = nanok8s_var_dir @ [''state'']"
definition backups_dir :: path where "backups_dir = nanok8s_var_dir @ [''backups'']"

definition last_boot_file :: path where "last_boot_file = state_dir @ [''last-boot.json'']"
definition last_event_file :: path where "last_event_file = state_dir @ [''last-event'']"

definition restore_marker :: path where "restore_marker = backups_dir @ [''restore'']"

text \<open>Files the code reads outside its own trees: the kernel's boot id and the ostree marker.\<close>

definition boot_id_file :: path where
  "boot_id_file = [''proc'', ''sys'', ''kernel'', ''random'', ''boot_id'']"

definition ostree_booted_marker :: path where "ostree_booted_marker = [''run'', ''ostree-booted'']"

lemmas paths_defs =
  config_file_def kubernetes_dir_def pki_dir_def manifests_dir_def kubeconfig_dir_def
  admin_kubeconfig_def kubelet_dir_def etcd_data_dir_def nanok8s_var_dir_def state_dir_def
  backups_dir_def last_boot_file_def last_event_file_def restore_marker_def boot_id_file_def
  ostree_booted_marker_def

lemmas more_paths_defs =
  config_dir_def etcd_pki_dir_def kubelet_kubeconfig_def cm_kubeconfig_def sched_kubeconfig_def
  kubelet_config_file_def kubelet_flags_env_file_def

end
