(* ===== verification/Config.thy ===== *)
theory Config
imports Api Reason Paths
begin

text \<open>
  internal/config/load.go: reading the configuration file.  The strict YAML decoder is the
  parameter \<open>yaml\<close>: from the text it gives an error or the configuration with the fields the text
  sets, the others zero.
\<close>

type_synonym decoder = "string \<Rightarrow> err + nanok8s_config"
type_synonym encoder = "nanok8s_config \<Rightarrow> err + string"

definition parse_config :: "decoder \<Rightarrow> string \<Rightarrow> path \<Rightarrow> nanok8s_config io" where
  "parse_config yaml data source =
     (case yaml data of
        Inl e \<Rightarrow> raise (Wrap (''parse '' @ path_text source @ '': '') e '''')
      | Inr c \<Rightarrow>
          (let d = SetDefaults c
           in case Validate d of
                Some e \<Rightarrow> raise (Wrap (''validate '' @ path_text source @ '': '') e '''')
              | None \<Rightarrow> return d))"

definition Load :: "decoder \<Rightarrow> path \<Rightarrow> nanok8s_config io" where
  "Load yaml path =
     seq (wrapped (''read '' @ path_text path @ '': '') (read_file path)) (\<lambda>data. parse_config yaml data path)"

definition LoadDefault :: "decoder \<Rightarrow> nanok8s_config io" where
  "LoadDefault yaml = Load yaml config_file"

definition Marshal :: "encoder \<Rightarrow> nanok8s_config \<Rightarrow> err + string" where
  "Marshal yaml c = yaml c"

text \<open>A configuration that Load returns is valid and is the decoded file with the defaults filled in; reading it
  changed nothing.\<close>

lemma Load_result:
  assumes "Load yaml p w = (Ok c, v)"
  shows "valid_config c \<and> fs v = fs w \<and>
    (\<exists>doc d. look w p = Some (File doc) \<and> yaml doc = Inr d \<and> c = SetDefaults d)"
proof -
  from assms obtain doc u where r: "read_file p w = (Ok doc, u)" and p: "parse_config yaml doc p u = (Ok c, v)"
    unfolding Load_def by (auto simp: run_simps)
  from p obtain d where "yaml doc = Inr d" "Validate (SetDefaults d) = None" "c = SetDefaults d" "v = u"
    by (auto simp: parse_config_def Let_def run_simps split: sum.splits option.splits)
  with read_file_Ok [OF r] show ?thesis
    by (auto simp: Validate_valid)
qed

definition fixed_decoder :: decoder where
  "fixed_decoder text = Inr (minimal_config ''0.0.0.0'')"

definition config_files :: files where
  "config_files = \<lparr>ents = [([], Dir), ([''etc''], Dir), ([''etc'', ''nanok8s''], Dir), (config_file, File ''text'')], stamps = []\<rparr>"

lemma Load_sample:
  "Load fixed_decoder config_file (quiet config_files) =
     (Ok (SetDefaults (minimal_config ''0.0.0.0'')), quiet config_files)"
proof -
  have zero: "''0.0.0.0'' = dotted 0 0 0 0"
    by code_simp
  have "ParseIP ''0.0.0.0'' \<noteq> None"
    unfolding zero by (simp add: ParseIP_of_dotted)
  then have "Validate (SetDefaults (minimal_config ''0.0.0.0'')) = None"
    using minimal_config_valid by blast
  moreover have "read_file config_file (quiet config_files) = (Ok ''text'', quiet config_files)"
    by (simp add: read_file_def syscall_def tick_def calm_def quiet_def config_files_def lookup_def config_file_def)
  ultimately show ?thesis
    by (simp add: Load_def parse_config_def fixed_decoder_def Let_def seq_def wrapped_def on_err_def return_def)
qed

end
