(* ===== verification/Utf8.thy ===== *)
theory Utf8
imports Prelude
begin

text \<open>
  Text as Go sees it: a string is a sequence of bytes, and a loop over its runes decodes UTF-8 as
  utf8.DecodeRune does, one byte at a time where the bytes are not valid.  With it come the functions
  that depend on it: strings.TrimSpace, the replacement of invalid bytes by U+FFFD that encoding/json
  does on the way out and on the way in, and the folding of object keys.
\<close>

section \<open>Decoding\<close>

abbreviation byte :: "char \<Rightarrow> nat" where
  "byte c \<equiv> of_char c"

text \<open>What a byte from 128 on announces: how many bytes follow it and the range of the first of them.\<close>

definition lead_byte :: "nat \<Rightarrow> (nat \<times> nat \<times> nat) option" where
  "lead_byte n =
     (if n < 194 then None
      else if n < 224 then Some (0, 128, 191)
      else if n = 224 then Some (1, 160, 191)
      else if n = 237 then Some (1, 128, 159)
      else if n < 240 then Some (1, 128, 191)
      else if n = 240 then Some (2, 144, 191)
      else if n < 244 then Some (2, 128, 191)
      else if n = 244 then Some (2, 128, 143)
      else None)"

definition continues :: "char \<Rightarrow> bool" where
  "continues c \<longleftrightarrow> 128 \<le> byte c \<and> byte c \<le> 191"

text \<open>The number of bytes of the rune at the start, 0 if there is no valid one.\<close>

fun rune_width :: "string \<Rightarrow> nat" where
  "rune_width [] = 0"
| "rune_width (c # cs) =
     (if byte c < 128 then 1
      else case (lead_byte (byte c), cs) of
        (Some (k, lo, hi), d # ds) \<Rightarrow>
          if lo \<le> byte d \<and> byte d \<le> hi \<and> k \<le> length ds \<and> list_all continues (take k ds) then k + 2 else 0
      | _ \<Rightarrow> 0)"

lemma rune_width_le: "rune_width s \<le> length s"
  by (cases s) (auto split: option.split list.split)

lemma rune_width_app:
  assumes "rune_width s \<noteq> 0"
  shows "rune_width (take (rune_width s) s @ t) = rune_width s"
proof (cases s)
  case (Cons c cs)
  show ?thesis
  proof (cases "byte c < 128")
    case False
    with assms Cons obtain k lo hi d ds where l: "lead_byte (byte c) = Some (k, lo, hi)" "cs = d # ds"
      by (auto split: option.splits list.splits if_splits)
    with assms Cons False have *: "lo \<le> byte d" "byte d \<le> hi" "k \<le> length ds" "list_all continues (take k ds)"
      by (auto split: if_splits)
    then have "rune_width s = k + 2"
      using Cons False l by simp
    with Cons l False * show ?thesis
      by simp
  qed (simp add: Cons)
qed (use assms in simp)

text \<open>The runes of a string in order, each by its bytes; \<open>None\<close> is a byte that starts no valid rune.\<close>

function runes :: "string \<Rightarrow> string option list" where
  "runes s =
     (if s = [] then []
      else if rune_width s = 0 then None # runes (tl s)
      else Some (take (rune_width s) s) # runes (drop (rune_width s) s))"
  by pat_completeness auto
termination
  by (relation "measure length") auto

declare runes.simps [simp del]

definition is_rune :: "string \<Rightarrow> bool" where
  "is_rune b \<longleftrightarrow> b \<noteq> [] \<and> rune_width b = length b"

lemma is_rune_bytes:
  assumes "is_rune b"
  shows "(\<exists>c. b = [c] \<and> byte c < 128) \<or> (\<forall>c \<in> set b. 128 \<le> byte c) \<and> b \<noteq> []"
proof (cases b)
  case (Cons c cs)
  show ?thesis
  proof (cases "byte c < 128")
    case True
    with Cons assms show ?thesis
      by (simp add: is_rune_def)
  next
    case False
    with assms Cons obtain k lo hi d ds where l: "lead_byte (byte c) = Some (k, lo, hi)" "cs = d # ds" "lo \<le> byte d"
      and ds: "list_all continues (take k ds)" "k = length ds"
      by (auto simp: is_rune_def split: option.splits list.splits if_splits)
    have "128 \<le> lo"
      using l(1) by (auto simp: lead_byte_def split: if_splits)
    with False l ds Cons show ?thesis
      by (auto simp: list_all_iff continues_def)
  qed
qed (use assms in \<open>simp add: is_rune_def\<close>)

lemma is_rune_app: "is_rune b \<Longrightarrow> rune_width (b @ t) = length b"
  using rune_width_app [of b t] by (simp add: is_rune_def)

lemma is_rune_take: "rune_width s \<noteq> 0 \<Longrightarrow> is_rune (take (rune_width s) s)"
  using rune_width_app [of s "[]"] rune_width_le [of s] by (cases s) (auto simp: is_rune_def)

lemma is_rune_ascii: "byte c < 128 \<Longrightarrow> is_rune [c]"
  by (simp add: is_rune_def)

lemma runes_Nil [simp]: "runes [] = []"
  by (simp add: runes.simps)

lemma runes_rune: "is_rune b \<Longrightarrow> runes (b @ t) = Some b # runes t"
  by (subst runes.simps) (auto simp: is_rune_app, auto simp: is_rune_def)

lemma runes_ascii: "byte c < 128 \<Longrightarrow> runes (c # t) = Some [c] # runes t"
  using runes_rune [OF is_rune_ascii, of c t] by simp

lemma runes_are_runes: "Some b \<in> set (runes s) \<Longrightarrow> is_rune b"
proof (induction s rule: runes.induct)
  case (1 s)
  show ?case
  proof (cases "s = [] \<or> rune_width s = 0")
    case True
    with "1.prems" "1.IH"(1) show ?thesis
      by (auto simp: runes.simps [of s] split: if_splits)
  next
    case False
    with "1.prems" "1.IH"(2) is_rune_take [of s] show ?thesis
      by (auto simp: runes.simps [of s])
  qed
qed

section \<open>Valid text\<close>

definition valid_utf8 :: "string \<Rightarrow> bool" where
  "valid_utf8 s \<longleftrightarrow> None \<notin> set (runes s)"

definition replacement :: string where
  "replacement = [CHR 0xEF, CHR 0xBF, CHR 0xBD]"

fun rune_text :: "string option \<Rightarrow> string" where
  "rune_text None = replacement"
| "rune_text (Some b) = b"

text \<open>Every invalid byte becomes U+FFFD (strings.ToValidUTF8 byte by byte).\<close>

definition to_valid :: "string \<Rightarrow> string" where
  "to_valid s = concat (map rune_text (runes s))"

lemma is_rune_replacement: "is_rune replacement"
  by (simp add: is_rune_def replacement_def lead_byte_def continues_def)

lemma is_rune_text: "r \<in> set (runes s) \<Longrightarrow> is_rune (rune_text r)"
  by (cases r) (auto simp: is_rune_replacement dest: runes_are_runes)

lemma runes_texts: "(\<And>b. b \<in> set bs \<Longrightarrow> is_rune b) \<Longrightarrow> runes (concat bs @ t) = map Some bs @ runes t"
  by (induction bs) (simp_all add: runes_rune)

lemma runes_to_valid: "runes (to_valid s) = map (Some \<circ> rune_text) (runes s)"
  using runes_texts [of "map rune_text (runes s)" "[]"] is_rune_text by (auto simp: to_valid_def)

lemma valid_Nil [simp]: "valid_utf8 []"
  by (simp add: valid_utf8_def)

lemma valid_to_valid [simp]: "valid_utf8 (to_valid s)"
  by (simp add: valid_utf8_def runes_to_valid image_iff)

lemma to_valid_Nil [simp]: "to_valid [] = []"
  by (simp add: to_valid_def)

lemma to_valid_eq_Nil [simp]: "to_valid s = [] \<longleftrightarrow> s = []"
proof
  assume "to_valid s = []"
  then have "runes s = []"
    using runes_to_valid [of s] by simp
  then show "s = []"
    by (simp add: runes.simps [of s] split: if_splits)
qed simp

lemma runes_concat: "valid_utf8 s \<Longrightarrow> concat (map rune_text (runes s)) = s"
proof (induction s rule: runes.induct)
  case (1 s)
  show ?case
  proof (cases "s = []")
    case False
    with "1.prems" have "rune_width s \<noteq> 0"
      by (cases "rune_width s = 0") (simp_all add: valid_utf8_def runes.simps [of s])
    with False 1 show ?thesis
      by (simp add: runes.simps [of s] valid_utf8_def)
  qed simp
qed

lemma to_valid_id [simp]: "valid_utf8 s \<Longrightarrow> to_valid s = s"
  by (simp add: to_valid_def runes_concat)

lemma to_valid_fixed: "to_valid s = s \<longleftrightarrow> valid_utf8 s"
  by (metis to_valid_id valid_to_valid)

lemma valid_append: "valid_utf8 s \<Longrightarrow> valid_utf8 t \<Longrightarrow> valid_utf8 (s @ t)"
proof -
  assume s: "valid_utf8 s" and t: "valid_utf8 t"
  have "s = concat (map rune_text (runes s))"
    using runes_concat [OF s] by simp
  then have "runes (s @ t) = map Some (map rune_text (runes s)) @ runes t"
    using runes_texts [of "map rune_text (runes s)" t] is_rune_text [of _ s] by (metis imageE list.set_map)
  with t show ?thesis
    by (auto simp: valid_utf8_def)
qed

lemma valid_rune: "is_rune b \<Longrightarrow> valid_utf8 b"
  using runes_rune [of b "[]"] by (simp add: valid_utf8_def)

lemma valid_ascii: "(\<And>c. c \<in> set s \<Longrightarrow> byte c < 128) \<Longrightarrow> valid_utf8 s"
  by (induction s) (simp_all add: valid_utf8_def runes_ascii)

text \<open>Replacing invalid bytes adds only bytes from 128 on.\<close>

lemma runes_set: "Some b \<in> set (runes s) \<Longrightarrow> set b \<subseteq> set s"
proof (induction s rule: runes.induct)
  case (1 s)
  then show ?case
    by (auto simp: runes.simps [of s] split: if_splits dest: in_set_takeD in_set_dropD list.set_sel(2))
qed

lemma set_to_valid: "c \<in> set (to_valid s) \<Longrightarrow> c \<in> set s \<or> c \<in> set replacement"
proof -
  assume "c \<in> set (to_valid s)"
  then obtain r where "r \<in> set (runes s)" "c \<in> set (rune_text r)"
    by (auto simp: to_valid_def)
  show ?thesis
  proof (cases r)
    case (Some b)
    with \<open>r \<in> set (runes s)\<close> \<open>c \<in> set (rune_text r)\<close> show ?thesis
      using runes_set [of b s] by auto
  qed (use \<open>c \<in> set (rune_text r)\<close> in simp)
qed

section \<open>White space\<close>

text \<open>The encodings of the runes unicode.IsSpace accepts.\<close>

definition white_space :: "string list" where
  "white_space =
     [[CHR 0x20], [CHR 0x0A], [CHR 0x09], [CHR 0x0D], [CHR 0x0B], [CHR 0x0C],
      [CHR 0xC2, CHR 0x85], [CHR 0xC2, CHR 0xA0], [CHR 0xE1, CHR 0x9A, CHR 0x80]]
     @ map (\<lambda>c. [CHR 0xE2, CHR 0x80, c])
         [CHR 0x80, CHR 0x81, CHR 0x82, CHR 0x83, CHR 0x84, CHR 0x85, CHR 0x86, CHR 0x87, CHR 0x88, CHR 0x89,
          CHR 0x8A, CHR 0xA8, CHR 0xA9, CHR 0xAF]
     @ [[CHR 0xE2, CHR 0x81, CHR 0x9F], [CHR 0xE3, CHR 0x80, CHR 0x80]]"

function strip :: "string list \<Rightarrow> string \<Rightarrow> string" where
  "strip es s = (case find (\<lambda>e. e \<noteq> [] \<and> prefix e s) es of None \<Rightarrow> s | Some e \<Rightarrow> strip es (drop (length e) s))"
  by pat_completeness auto
termination
  by (relation "measure (length \<circ> snd)") (auto simp: find_Some_iff intro!: diff_less)

declare strip.simps [simp del]

lemma strip_Nil [simp]: "strip es [] = []"
proof -
  have "find (\<lambda>e. e \<noteq> [] \<and> prefix e []) es = None"
    by (auto simp: find_None_iff)
  then show ?thesis
    by (simp add: strip.simps [of es "[]"])
qed

text \<open>strings.TrimSpace.  The last rune of a text is found from its end: an encoding is recognised by its bytes.\<close>

definition trim_space :: "string \<Rightarrow> string" where
  "trim_space s = rev (strip (map rev white_space) (rev (strip white_space s)))"

lemma suffix_strip: "suffix (strip es s) s"
proof (induction es s rule: strip.induct)
  case (1 es s)
  show ?case
  proof (cases "find (\<lambda>e. e \<noteq> [] \<and> prefix e s) es")
    case (Some e)
    from 1 [OF Some] have "suffix (strip es (drop (length e) s)) s"
      using suffix_drop suffix_order.trans by blast
    with Some show ?thesis
      by (simp add: strip.simps [of es s])
  qed (simp add: strip.simps [of es s])
qed

lemma set_trim: "set (trim_space s) \<subseteq> set s"
  using set_mono_suffix [OF suffix_strip [of white_space s]]
    set_mono_suffix [OF suffix_strip [of "map rev white_space" "rev (strip white_space s)"]]
  by (auto simp: trim_space_def)

lemma newline_white:
  "find (\<lambda>e. e \<noteq> [] \<and> prefix e (CHR 0x0A # s)) white_space = Some [CHR 0x0A]"
  "find (\<lambda>e. e \<noteq> [] \<and> prefix e (CHR 0x0A # s)) (map rev white_space) = Some [CHR 0x0A]"
  by (simp_all add: white_space_def)

lemma strip_newline [simp]:
  "strip white_space (CHR 0x0A # s) = strip white_space s"
  "strip (map rev white_space) (CHR 0x0A # s) = strip (map rev white_space) s"
  by (simp_all add: strip.simps [of _ "CHR 0x0A # s"] newline_white)

lemma white_space_newline: "e \<in> set white_space \<Longrightarrow> CHR 0x0A \<in> set e \<Longrightarrow> e = [CHR 0x0A]"
  by (auto simp: white_space_def)

lemma strip_snoc_newline:
  "strip white_space (s @ [CHR 0x0A]) = (if strip white_space s = [] then [] else strip white_space s @ [CHR 0x0A])"
proof (induction s rule: length_induct)
  case (1 s)
  show ?case
  proof (cases "s = []")
    case True
    then show ?thesis
      by simp
  next
    case False
    have "prefix e (s @ [CHR 0x0A]) \<longleftrightarrow> prefix e s" if "e \<in> set white_space" for e
      using white_space_newline [OF that] False by auto
    then have f: "find (\<lambda>e. e \<noteq> [] \<and> prefix e (s @ [CHR 0x0A])) white_space = find (\<lambda>e. e \<noteq> [] \<and> prefix e s) white_space"
      by (intro find_cong) auto
    show ?thesis
    proof (cases "find (\<lambda>e. e \<noteq> [] \<and> prefix e s) white_space")
      case None
      with f False show ?thesis
        by (simp add: strip.simps [of _ s] strip.simps [of _ "s @ [CHR 0x0A]"])
    next
      case (Some e)
      then have "e \<noteq> []" "prefix e s"
        by (auto simp: find_Some_iff)
      then have "length (drop (length e) s) < length s" "length e \<le> length s"
        using False by (auto simp: prefix_length_le)
      with Some f 1 show ?thesis
        by (simp add: strip.simps [of _ s] strip.simps [of _ "s @ [CHR 0x0A]"])
    qed
  qed
qed

lemma trim_space_newline_any: "trim_space (s @ [CHR 0x0A]) = trim_space s"
  by (simp add: trim_space_def strip_snoc_newline)

section \<open>Keys of objects\<close>

text \<open>Two keys are equal for encoding/json when they are equal up to case, as Unicode folds it: the
  long s is an s and the Kelvin sign a k.\<close>

fun fold_rune :: "string option \<Rightarrow> string" where
  "fold_rune None = replacement"
| "fold_rune (Some b) =
     (if b = [CHR 0xC5, CHR 0xBF] then ''s''
      else if b = [CHR 0xE2, CHR 0x84, CHR 0xAA] then ''k''
      else map lower_char b)"

definition fold_key :: "string \<Rightarrow> string" where
  "fold_key s = concat (map fold_rune (runes s))"

end
