(* ===== verification/Json.thy ===== *)
theory Json
imports Goio Utf8
begin

text \<open>
  The part of encoding/json the code relies on: strings are written as Marshal writes them, with
  the HTML-safe escapes and with U+FFFD for every byte that is not valid UTF-8, and a whole document is
  parsed and validated as Unmarshal does before it stores anything.  The texts of parse errors
  are left out.

  The parser spends fuel at each value and list step; \<open>parse_fuel\<close> shows that any amount above
  the length of the input gives the same result, so running out of fuel is never what makes a
  document invalid.
\<close>

section \<open>Writing\<close>

definition hex_digit :: "nat \<Rightarrow> char" where
  "hex_digit n = (if n < 10 then char_of (48 + n) else char_of (87 + n))"

definition escape_char :: "char \<Rightarrow> string" where
  "escape_char c =
     (if c = CHR 0x22 \<or> c = CHR 0x5C then [CHR 0x5C, c]
      else if c = CHR 0x08 then [CHR 0x5C, CHR ''b'']
      else if c = CHR 0x0C then [CHR 0x5C, CHR ''f'']
      else if c = CHR 0x0A then [CHR 0x5C, CHR ''n'']
      else if c = CHR 0x0D then [CHR 0x5C, CHR ''r'']
      else if c = CHR 0x09 then [CHR 0x5C, CHR ''t'']
      else if (of_char c :: nat) < 32 \<or> c \<in> {CHR ''<'', CHR ''>'', CHR ''&''} then
        [CHR 0x5C, CHR ''u'', CHR ''0'', CHR ''0'', hex_digit (of_char c div 16), hex_digit (of_char c mod 16)]
      else [c])"

text \<open>An invalid byte is written as U+FFFD, the line separators U+2028 and U+2029 are escaped, other runes
  from 128 on are copied.\<close>

fun escape_rune :: "string option \<Rightarrow> string" where
  "escape_rune None = CHR 0x5C # ''ufffd''"
| "escape_rune (Some b) =
     (if b = [CHR 0xE2, CHR 0x80, CHR 0xA8] then CHR 0x5C # ''u2028''
      else if b = [CHR 0xE2, CHR 0x80, CHR 0xA9] then CHR 0x5C # ''u2029''
      else concat (map escape_char b))"

definition quote_string :: "string \<Rightarrow> string" where
  "quote_string s = CHR 0x22 # concat (map escape_rune (runes s)) @ [CHR 0x22]"

section \<open>Parsing\<close>

datatype json = JNull | JBool bool | JNum string | JStr string | JArr "json list" | JObj "(string \<times> json) list"

definition is_ws :: "char \<Rightarrow> bool" where
  "is_ws c = (c \<in> {CHR 0x20, CHR 0x09, CHR 0x0A, CHR 0x0D})"

definition skip_ws :: "string \<Rightarrow> string" where
  "skip_ws = dropWhile is_ws"

definition hex_value :: "char \<Rightarrow> nat option" where
  "hex_value c =
     (let n = (of_char c :: nat)
      in if 48 \<le> n \<and> n \<le> 57 then Some (n - 48)
         else if 97 \<le> n \<and> n \<le> 102 then Some (n - 87)
         else if 65 \<le> n \<and> n \<le> 70 then Some (n - 55) else None)"

text \<open>Four hexadecimal digits: the value and the rest.\<close>

fun hex4 :: "string \<Rightarrow> (nat \<times> string) option" where
  "hex4 (a # b # c # d # r) =
     (case (hex_value a, hex_value b, hex_value c, hex_value d) of
        (Some x, Some y, Some z, Some u) \<Rightarrow> Some (((x * 16 + y) * 16 + z) * 16 + u, r)
      | _ \<Rightarrow> None)"
| "hex4 _ = None"

definition utf8_encode :: "nat \<Rightarrow> string" where
  "utf8_encode n =
     (if n < 128 then [char_of n]
      else if n < 2048 then [char_of (192 + n div 64), char_of (128 + n mod 64)]
      else if n < 65536 then
        [char_of (224 + n div 4096), char_of (128 + n div 64 mod 64), char_of (128 + n mod 64)]
      else [char_of (240 + n div 262144), char_of (128 + n div 4096 mod 64),
            char_of (128 + n div 64 mod 64), char_of (128 + n mod 64)])"

text \<open>The characters after \<open>\u\<close>: a surrogate pair is one character, a lone surrogate becomes
  U+FFFD.\<close>

definition unicode_escape :: "string \<Rightarrow> (string \<times> string) option" where
  "unicode_escape s =
     (case hex4 s of None \<Rightarrow> None
      | Some (n, r) \<Rightarrow>
          if 55296 \<le> n \<and> n < 57344 then
            (case r of a # b # r' \<Rightarrow>
               (if a = CHR 0x5C \<and> b = CHR ''u'' then
                  (case hex4 r' of Some (m, r'') \<Rightarrow>
                     (if n < 56320 \<and> 56320 \<le> m \<and> m < 57344
                      then Some (utf8_encode ((n - 55296) * 1024 + (m - 56320) + 65536), r'')
                      else Some (utf8_encode 65533, r))
                   | None \<Rightarrow> Some (utf8_encode 65533, r))
                else Some (utf8_encode 65533, r))
             | _ \<Rightarrow> Some (utf8_encode 65533, r))
          else Some (utf8_encode n, r))"

definition simple_escape :: "char \<Rightarrow> char option" where
  "simple_escape c =
     (if c \<in> {CHR 0x22, CHR 0x5C, CHR ''/''} then Some c
      else if c = CHR ''b'' then Some (CHR 0x08)
      else if c = CHR ''f'' then Some (CHR 0x0C)
      else if c = CHR ''n'' then Some (CHR 0x0A)
      else if c = CHR ''r'' then Some (CHR 0x0D)
      else if c = CHR ''t'' then Some (CHR 0x09) else None)"

lemma hex4_shorter: "hex4 s = Some (n, r) \<Longrightarrow> length r < length s"
  by (cases s rule: hex4.cases) (auto split: option.splits)

lemma unicode_escape_shorter: "unicode_escape s = Some (x, r) \<Longrightarrow> length r < length s"
  by (auto simp: unicode_escape_def dest!: hex4_shorter split: option.splits if_splits list.splits)

text \<open>The characters of a string after its opening quote: the value and what follows the closing
  quote.  A byte that starts no valid rune becomes U+FFFD.\<close>

function parse_str :: "string \<Rightarrow> (string \<times> string) option" where
  "parse_str [] = None"
| "parse_str (c # cs) =
     (if c = CHR 0x22 then Some ([], cs)
      else if c = CHR 0x5C then
        (case cs of [] \<Rightarrow> None
         | e # es \<Rightarrow>
             (case simple_escape e of
                Some x \<Rightarrow> map_option (apfst ((#) x)) (parse_str es)
              | None \<Rightarrow>
                  if e = CHR ''u'' then
                    (case unicode_escape es of None \<Rightarrow> None
                     | Some (x, r) \<Rightarrow> map_option (apfst ((@) x)) (parse_str r))
                  else None))
      else if (of_char c :: nat) < 32 then None
      else if byte c < 128 then map_option (apfst ((#) c)) (parse_str cs)
      else if rune_width (c # cs) = 0 then map_option (apfst ((@) replacement)) (parse_str cs)
      else map_option (apfst ((@) (take (rune_width (c # cs)) (c # cs)))) (parse_str (drop (rune_width (c # cs)) (c # cs))))"
  by pat_completeness auto
termination
  by (relation "measure length") (auto dest!: unicode_escape_shorter)

definition is_digit :: "char \<Rightarrow> bool" where
  "is_digit c = (48 \<le> (of_char c :: nat) \<and> (of_char c :: nat) \<le> 57)"

definition digits_of :: "string \<Rightarrow> (string \<times> string) option" where
  "digits_of s = (if takeWhile is_digit s = [] then None else Some (takeWhile is_digit s, dropWhile is_digit s))"

text \<open>A number is kept as its text: optional sign, integer part, fraction, exponent.\<close>

definition int_part :: "string \<Rightarrow> (string \<times> string) option" where
  "int_part s = (case s of c # cs \<Rightarrow> if c = CHR ''0'' then Some ([c], cs) else digits_of s | [] \<Rightarrow> None)"

definition frac_part :: "string \<Rightarrow> (string \<times> string) option" where
  "frac_part s = (case s of c # cs \<Rightarrow>
      if c = CHR ''.'' then map_option (apfst ((#) c)) (digits_of cs) else Some ([], s)
    | [] \<Rightarrow> Some ([], []))"

definition exp_part :: "string \<Rightarrow> (string \<times> string) option" where
  "exp_part s = (case s of c # cs \<Rightarrow>
      if c \<in> {CHR ''e'', CHR ''E''} then
        (case cs of d # ds \<Rightarrow>
           if d \<in> {CHR ''+'', CHR ''-''} then map_option (apfst (\<lambda>x. c # d # x)) (digits_of ds)
           else map_option (apfst ((#) c)) (digits_of cs)
         | [] \<Rightarrow> None)
      else Some ([], s)
    | [] \<Rightarrow> Some ([], []))"

definition parse_num :: "string \<Rightarrow> (string \<times> string) option" where
  "parse_num s =
     (let (sign, s0) = (case s of c # cs \<Rightarrow> if c = CHR ''-'' then ([c], cs) else ([], s) | [] \<Rightarrow> ([], s))
      in case int_part s0 of None \<Rightarrow> None
         | Some (i, s1) \<Rightarrow> (case frac_part s1 of None \<Rightarrow> None
            | Some (f, s2) \<Rightarrow> (case exp_part s2 of None \<Rightarrow> None
               | Some (e, s3) \<Rightarrow> Some (sign @ i @ f @ e, s3))))"

definition literal :: "string \<Rightarrow> 'a \<Rightarrow> string \<Rightarrow> ('a \<times> string) option" where
  "literal t v s = (if prefix t s then Some (v, drop (length t) s) else None)"

fun parse_val :: "nat \<Rightarrow> string \<Rightarrow> (json \<times> string) option"
  and parse_elems :: "nat \<Rightarrow> string \<Rightarrow> (json list \<times> string) option"
  and parse_members :: "nat \<Rightarrow> string \<Rightarrow> ((string \<times> json) list \<times> string) option"
where
  "parse_val 0 s = None"
| "parse_val (Suc n) s =
     (case skip_ws s of [] \<Rightarrow> None
      | c # cs \<Rightarrow>
          if c = CHR 0x22 then map_option (apfst JStr) (parse_str cs)
          else if c = CHR 0x7B then
            (case skip_ws cs of [] \<Rightarrow> None
             | d # ds \<Rightarrow> if d = CHR 0x7D then Some (JObj [], ds)
                 else map_option (apfst JObj) (parse_members n cs))
          else if c = CHR 0x5B then
            (case skip_ws cs of [] \<Rightarrow> None
             | d # ds \<Rightarrow> if d = CHR 0x5D then Some (JArr [], ds)
                 else map_option (apfst JArr) (parse_elems n cs))
          else if c = CHR ''t'' then literal ''true'' (JBool True) (c # cs)
          else if c = CHR ''f'' then literal ''false'' (JBool False) (c # cs)
          else if c = CHR ''n'' then literal ''null'' JNull (c # cs)
          else map_option (apfst JNum) (parse_num (c # cs)))"
| "parse_elems 0 s = None"
| "parse_elems (Suc n) s =
     (case parse_val n s of None \<Rightarrow> None
      | Some (v, r) \<Rightarrow> (case skip_ws r of [] \<Rightarrow> None
         | d # ds \<Rightarrow> if d = CHR 0x2C then map_option (apfst ((#) v)) (parse_elems n ds)
             else if d = CHR 0x5D then Some ([v], ds) else None))"
| "parse_members 0 s = None"
| "parse_members (Suc n) s =
     (case skip_ws s of [] \<Rightarrow> None
      | c # cs \<Rightarrow> if c \<noteq> CHR 0x22 then None else
         (case parse_str cs of None \<Rightarrow> None
          | Some (k, r) \<Rightarrow> (case skip_ws r of [] \<Rightarrow> None
             | e # es \<Rightarrow> if e \<noteq> CHR 0x3A then None else
                (case parse_val n es of None \<Rightarrow> None
                 | Some (v, r') \<Rightarrow> (case skip_ws r' of [] \<Rightarrow> None
                    | d # ds \<Rightarrow> if d = CHR 0x2C then map_option (apfst ((#) (k, v))) (parse_members n ds)
                        else if d = CHR 0x7D then Some ([(k, v)], ds) else None)))))"

text \<open>The nesting of objects and arrays, and the most that encoding/json accepts.\<close>

fun nesting :: "json \<Rightarrow> nat" where
  "nesting (JArr js) = Suc (foldr max (map nesting js) 0)"
| "nesting (JObj ms) = Suc (foldr max (map (\<lambda>(k, j). nesting j) ms) 0)"
| "nesting _ = 0"

definition max_nesting :: int where
  "max_nesting = 10000"

definition parse_json :: "string \<Rightarrow> json option" where
  "parse_json s = (case parse_val (Suc (2 * length s)) s of None \<Rightarrow> None
     | Some (v, r) \<Rightarrow> if skip_ws r = [] \<and> int (nesting v) \<le> max_nesting then Some v else None)"

section \<open>Every parser consumes input, and fuel does not matter\<close>

lemma skip_ws_le: "length (skip_ws s) \<le> length s"
  by (simp add: skip_ws_def length_dropWhile_le)

lemma skip_ws_Cons: "skip_ws s = c # cs \<Longrightarrow> length cs < length s"
  using skip_ws_le [of s] by simp

lemma parse_str_shorter: "parse_str s = Some (k, r) \<Longrightarrow> length r < length s"
proof (induction s arbitrary: k r rule: parse_str.induct)
  case (2 c cs)
  then show ?case
    by (fastforce split: if_splits list.splits option.splits dest: unicode_escape_shorter)
qed simp

lemma digits_of_shorter: "digits_of s = Some (x, r) \<Longrightarrow> length r < length s"
proof -
  assume a: "digits_of s = Some (x, r)"
  then have "s = x @ r" "x \<noteq> []"
    by (auto simp: digits_of_def split: if_splits)
  then show ?thesis
    by simp
qed

lemma int_part_shorter: "int_part s = Some (x, r) \<Longrightarrow> length r < length s"
  by (auto simp: int_part_def split: list.splits if_splits dest: digits_of_shorter)

lemma frac_part_le: "frac_part s = Some (x, r) \<Longrightarrow> length r \<le> length s"
  by (auto simp: frac_part_def split: list.splits if_splits dest: digits_of_shorter)

lemma exp_part_le: "exp_part s = Some (x, r) \<Longrightarrow> length r \<le> length s"
  by (auto simp: exp_part_def split: list.splits if_splits dest: digits_of_shorter)

lemma parse_num_shorter: "parse_num s = Some (x, r) \<Longrightarrow> length r < length s"
  by (auto simp: parse_num_def split: prod.splits list.splits if_splits option.splits
      dest!: int_part_shorter frac_part_le exp_part_le)

lemma literal_shorter: "literal t v s = Some (x, r) \<Longrightarrow> t \<noteq> [] \<Longrightarrow> length r < length s"
  by (auto simp: literal_def prefix_def split: if_splits)

lemma parse_shorter:
  "parse_val n s = Some (v, r) \<Longrightarrow> length r < length s"
  "parse_elems n s = Some (vs, r) \<Longrightarrow> length r < length s"
  "parse_members n s = Some (kvs, r) \<Longrightarrow> length r < length s"
proof (induction n s and n s and n s arbitrary: v r and vs r and kvs r
    rule: parse_val_parse_elems_parse_members.induct)
  case (2 n s)
  show ?case
  proof (cases "skip_ws s")
    case (Cons c cs)
    note le = skip_ws_le [of s, unfolded Cons] skip_ws_le [of cs]
    show ?thesis
      using "2.prems" "2.IH" [OF Cons] le
      by (auto simp: Cons split: if_splits list.splits
          dest!: parse_str_shorter parse_num_shorter literal_shorter; fastforce)
  qed (use "2.prems" in simp)
next
  case (4 n s)
  then show ?case
    by (fastforce split: option.splits list.splits if_splits dest: skip_ws_Cons)
next
  case (6 n s)
  then show ?case
    by (fastforce split: option.splits list.splits if_splits dest: skip_ws_Cons parse_str_shorter)
qed auto

text \<open>One step with different fuel gives the same result if the steps on shorter texts do.\<close>

lemma parse_val_step:
  assumes "\<And>t. length t < length s \<Longrightarrow> parse_members n t = parse_members k t"
    and "\<And>t. length t < length s \<Longrightarrow> parse_elems n t = parse_elems k t"
  shows "parse_val (Suc n) s = parse_val (Suc k) s"
proof (cases "skip_ws s")
  case (Cons c cs)
  from skip_ws_Cons [OF this] assms have "parse_members n cs = parse_members k cs" "parse_elems n cs = parse_elems k cs"
    by blast+
  with Cons show ?thesis
    by (auto split: list.split)
qed simp

lemma parse_elems_step:
  assumes v: "parse_val n s = parse_val k s"
    and "\<And>t. length t < length s \<Longrightarrow> parse_elems n t = parse_elems k t"
  shows "parse_elems (Suc n) s = parse_elems (Suc k) s"
proof -
  have "parse_elems n ds = parse_elems k ds" if "parse_val k s = Some (x, r)" "skip_ws r = d # ds" for x r d ds
    using assms(2) [of ds] parse_shorter(1) [OF that(1)] skip_ws_Cons [OF that(2)] by simp
  then show ?thesis
    by (auto simp: v split: option.split list.split)
qed

lemma parse_members_step:
  assumes v: "\<And>t. length t < length s \<Longrightarrow> parse_val n t = parse_val k t"
    and m: "\<And>t. length t < length s \<Longrightarrow> parse_members n t = parse_members k t"
  shows "parse_members (Suc n) s = parse_members (Suc k) s"
proof -
  have *: "length es < length s"
    if "skip_ws s = c # cs" "parse_str cs = Some (x, r)" "skip_ws r = e # es" for c cs x r e es
    using skip_ws_Cons [OF that(1)] parse_str_shorter [OF that(2)] skip_ws_Cons [OF that(3)] by simp
  have **: "length ds < length s"
    if "skip_ws s = c # cs" "parse_str cs = Some (x, r)" "skip_ws r = e # es"
      "parse_val k es = Some (y, u)" "skip_ws u = d # ds" for c cs x r e es y u d ds
    using * [OF that(1-3)] parse_shorter(1) [OF that(4)] skip_ws_Cons [OF that(5)] by simp
  show ?thesis
    by (auto simp: v [OF *] m [OF **] split: option.split list.split)
qed

lemma parse_fuel:
  "2 * length s < n \<Longrightarrow> 2 * length s < m \<Longrightarrow> parse_val n s = parse_val m s"
  "2 * length s + 1 < n \<Longrightarrow> 2 * length s + 1 < m \<Longrightarrow> parse_elems n s = parse_elems m s"
  "2 * length s < n \<Longrightarrow> 2 * length s < m \<Longrightarrow> parse_members n s = parse_members m s"
proof (induction n arbitrary: s m)
  case (Suc n)
  {
    case 1
    then obtain k where m: "m = Suc k"
      by (cases m) auto
    show ?case
      unfolding m by (rule parse_val_step; rule Suc.IH; insert 1 m; linarith)
  next
    case 2
    then obtain k where m: "m = Suc k"
      by (cases m) auto
    show ?case
      unfolding m by (rule parse_elems_step; rule Suc.IH; insert 2 m; linarith)
  next
    case 3
    then obtain k where m: "m = Suc k"
      by (cases m) auto
    show ?case
      unfolding m by (rule parse_members_step; rule Suc.IH; insert 3 m; linarith)
  }
qed simp_all

section \<open>What is written is read back\<close>

lemma hex_value_digit: "k < 16 \<Longrightarrow> hex_value (hex_digit k) = Some k"
  by (auto simp: hex_value_def hex_digit_def Let_def)

lemma hex4_escape:
  "hex4 (CHR ''0'' # CHR ''0'' # hex_digit (of_char c div 16) # hex_digit (of_char c mod 16) # r) =
     Some (of_char c, r)"
proof -
  have "hex_value (CHR ''0'') = Some 0"
    by (simp add: hex_value_def)
  moreover have "(of_char c :: nat) div 16 < 16"
    using of_char_mod_256 [of c] by (simp add: less_mult_imp_div_less)
  ultimately show ?thesis
    by (simp add: hex_value_digit)
qed

lemma parse_str_backslash:
  "simple_escape e = Some x \<Longrightarrow> parse_str (CHR 0x5C # e # t) = map_option (apfst ((#) x)) (parse_str t)"
  by simp

lemma escape_simple:
  "c \<in> {CHR 0x22, CHR 0x5C, CHR 0x08, CHR 0x0C, CHR 0x0A, CHR 0x0D, CHR 0x09} \<Longrightarrow>
     \<exists>e. escape_char c = [CHR 0x5C, e] \<and> simple_escape e = Some c"
  by (elim insertE emptyE; hypsubst; simp add: escape_char_def simple_escape_def)

lemma escape_unicode:
  assumes "c \<notin> {CHR 0x22, CHR 0x5C, CHR 0x08, CHR 0x0C, CHR 0x0A, CHR 0x0D, CHR 0x09}"
    and "(of_char c :: nat) < 32 \<or> c \<in> {CHR ''<'', CHR ''>'', CHR ''&''}"
  shows "escape_char c = [CHR 0x5C, CHR ''u'', CHR ''0'', CHR ''0'',
      hex_digit (of_char c div 16), hex_digit (of_char c mod 16)]"
  using assms unfolding escape_char_def
  by (simp only: insert_iff empty_iff simp_thms if_False if_True de_Morgan_disj)

lemma escape_plain:
  assumes "c \<notin> {CHR 0x22, CHR 0x5C, CHR 0x08, CHR 0x0C, CHR 0x0A, CHR 0x0D, CHR 0x09}"
    and "\<not> ((of_char c :: nat) < 32 \<or> c \<in> {CHR ''<'', CHR ''>'', CHR ''&''})"
  shows "escape_char c = [c]"
  using assms unfolding escape_char_def
  by (simp only: insert_iff empty_iff simp_thms if_False if_True de_Morgan_disj)

lemma unicode_escape_ascii:
  "(of_char c :: nat) < 128 \<Longrightarrow>
     unicode_escape (CHR ''0'' # CHR ''0'' # hex_digit (of_char c div 16) #
       hex_digit (of_char c mod 16) # t) = Some ([c], t)"
  by (simp add: unicode_escape_def hex4_escape utf8_encode_def del: hex4.simps)

lemma parse_str_unicode:
  "unicode_escape es = Some ([c], r) \<Longrightarrow>
     parse_str (CHR 0x5C # CHR ''u'' # es) = map_option (apfst ((#) c)) (parse_str r)"
proof -
  assume "unicode_escape es = Some ([c], r)"
  moreover have "(apfst ((@) [c]) :: string \<times> string \<Rightarrow> string \<times> string) = apfst ((#) c)"
    by (simp add: fun_eq_iff)
  moreover have "simple_escape (CHR ''u'') = None"
    by (simp add: simple_escape_def)
  ultimately show ?thesis
    by simp
qed

lemma parse_str_escape:
  assumes small: "byte c < 128"
  shows "parse_str (escape_char c @ t) = map_option (apfst ((#) c)) (parse_str t)"
proof (cases "c \<in> {CHR 0x22, CHR 0x5C, CHR 0x08, CHR 0x0C, CHR 0x0A, CHR 0x0D, CHR 0x09}")
  case True
  then obtain e where e: "escape_char c = [CHR 0x5C, e]" "simple_escape e = Some c"
    using escape_simple [OF True] by (elim exE conjE)
  show ?thesis
    unfolding e(1) append_Cons append_Nil by (rule parse_str_backslash [OF e(2)])
next
  case special: False
  show ?thesis
  proof (cases "(of_char c :: nat) < 32 \<or> c \<in> {CHR ''<'', CHR ''>'', CHR ''&''}")
    case True
    then have "(of_char c :: nat) < 128"
      by (elim disjE insertE emptyE) simp_all
    then show ?thesis
      unfolding escape_unicode [OF special True] append_Cons append_Nil
      by (rule parse_str_unicode [OF unicode_escape_ascii])
  next
    case False
    have "c \<noteq> CHR 0x22" "c \<noteq> CHR 0x5C" "\<not> (of_char c :: nat) < 32"
      using special False by (simp_all only: insert_iff simp_thms de_Morgan_disj)
    then show ?thesis
      unfolding escape_plain [OF special False] append_Cons append_Nil by (simp add: small)
  qed
qed

declare parse_str.simps(2) [simp del]

lemma escape_large: "128 \<le> byte c \<Longrightarrow> escape_char c = [c]"
  by (rule escape_plain) auto

lemma escape_large_bytes: "\<forall>c \<in> set b. 128 \<le> byte c \<Longrightarrow> concat (map escape_char b) = b"
  by (induction b) (simp_all add: escape_large)

lemma parse_str_rune:
  assumes "is_rune b" "\<forall>c \<in> set b. 128 \<le> byte c"
  shows "parse_str (b @ t) = map_option (apfst ((@) b)) (parse_str t)"
proof -
  from assms(1) obtain c cs where b: "b = c # cs"
    by (cases b) (auto simp: is_rune_def)
  have c: "128 \<le> byte c" "c \<noteq> CHR 0x22" "c \<noteq> CHR 0x5C"
    using assms(2) b by auto
  have "rune_width (c # cs @ t) = Suc (length cs)"
    using is_rune_app [OF assms(1), of t] b by simp
  with c have "parse_str (c # cs @ t) = map_option (apfst ((@) (c # cs))) (parse_str t)"
    by (simp only: parse_str.simps(2) if_False linorder_not_less [symmetric] simp_thms
        Suc_not_Zero nat.distinct) (simp del: rune_width.simps)
  then show ?thesis
    by (simp add: b)
qed

lemma parse_str_u:
  "unicode_escape es = Some (x, r) \<Longrightarrow>
     parse_str (CHR 0x5C # CHR ''u'' # es) = map_option (apfst ((@) x)) (parse_str r)"
  by (simp add: parse_str.simps(2) simple_escape_def)

lemma escape_specials:
  "unicode_escape (''fffd'' @ t) = Some (replacement, t)"
  "unicode_escape (''2028'' @ t) = Some ([CHR 0xE2, CHR 0x80, CHR 0xA8], t)"
  "unicode_escape (''2029'' @ t) = Some ([CHR 0xE2, CHR 0x80, CHR 0xA9], t)"
  by (simp_all add: unicode_escape_def hex_value_def Let_def utf8_encode_def replacement_def char_of_eq_iff)

lemma parse_str_escape_rune:
  assumes "\<And>b. r = Some b \<Longrightarrow> is_rune b"
  shows "parse_str (escape_rune r @ t) = map_option (apfst ((@) (rune_text r))) (parse_str t)"
proof (cases r)
  case None
  then show ?thesis
    using parse_str_u [OF escape_specials(1)] by simp
next
  case (Some b)
  show ?thesis
  proof (cases "b = [CHR 0xE2, CHR 0x80, CHR 0xA8] \<or> b = [CHR 0xE2, CHR 0x80, CHR 0xA9]")
    case True
    then show ?thesis
      using parse_str_u [OF escape_specials(2)] parse_str_u [OF escape_specials(3)] Some by auto
  next
    case False
    from is_rune_bytes [OF assms [OF Some]] show ?thesis
    proof
      assume "\<exists>c. b = [c] \<and> byte c < 128"
      then obtain c where c: "b = [c]" "byte c < 128"
        by blast
      have "(apfst ((@) [c]) :: string \<times> string \<Rightarrow> string \<times> string) = apfst ((#) c)"
        by (simp add: fun_eq_iff)
      with c Some show ?thesis
        using parse_str_escape [OF c(2), of t] by simp
    next
      assume b: "(\<forall>c \<in> set b. 128 \<le> byte c) \<and> b \<noteq> []"
      then have "escape_rune r = b"
        using False Some escape_large_bytes by simp
      with b Some show ?thesis
        using parse_str_rune [OF assms [OF Some]] by simp
    qed
  qed
qed

lemma parse_str_runes:
  "(\<And>b. Some b \<in> set rs \<Longrightarrow> is_rune b) \<Longrightarrow>
     parse_str (concat (map escape_rune rs) @ CHR 0x22 # r) = Some (concat (map rune_text rs), r)"
proof (induction rs)
  case Nil
  show ?case
    by (simp add: parse_str.simps(2))
next
  case (Cons a rs)
  then show ?case
    by (simp add: parse_str_escape_rune)
qed

lemma parse_str_quoted [simp]:
  "parse_str (concat (map escape_rune (runes s)) @ CHR 0x22 # r) = Some (to_valid s, r)"
  by (simp add: parse_str_runes runes_are_runes to_valid_def)

lemma quote_string_Cons: "quote_string s @ r = CHR 0x22 # concat (map escape_rune (runes s)) @ CHR 0x22 # r"
  by (simp add: quote_string_def)

lemma skip_ws_quote [simp]: "skip_ws (CHR 0x22 # r) = CHR 0x22 # r"
  by (simp add: skip_ws_def is_ws_def)

lemma parse_val_quoted:
  "parse_val (Suc n) (quote_string s @ r) = Some (JStr (to_valid s), r)"
  by (simp add: quote_string_Cons)

text \<open>A member whose value is a string, followed by a comma or the closing brace.\<close>

lemma skip_ws_punct [simp]:
  "skip_ws (CHR 0x3A # r) = CHR 0x3A # r" "skip_ws (CHR 0x2C # r) = CHR 0x2C # r"
  "skip_ws (CHR 0x7B # r) = CHR 0x7B # r" "skip_ws (CHR 0x7D # r) = CHR 0x7D # r"
  by (simp_all add: skip_ws_def is_ws_def)

lemma parse_member_more:
  "parse_members (Suc (Suc n)) (quote_string k @ CHR 0x3A # quote_string v @ CHR 0x2C # r) =
     map_option (apfst ((#) (to_valid k, JStr (to_valid v)))) (parse_members (Suc n) r)"
  by (simp add: quote_string_Cons)

lemma parse_member_last:
  "parse_members (Suc (Suc n)) (quote_string k @ CHR 0x3A # quote_string v @ CHR 0x7D # r) =
     Some ([(to_valid k, JStr (to_valid v))], r)"
  by (simp add: quote_string_Cons)

section \<open>What is read is valid text\<close>

text \<open>Every string of a parsed document, keys included, is valid UTF-8.\<close>

lemma rune_bytes2:
  assumes "2 \<le> a" "a < 32" "b < 64"
  shows "is_rune [char_of (192 + a :: nat), char_of (128 + b :: nat)]"
proof -
  have "lead_byte (192 + a :: nat) = Some (0, 128, 191)"
    using assms by (simp add: lead_byte_def)
  moreover have "byte (char_of (192 + a :: nat) :: char) = 192 + a" "byte (char_of (128 + b :: nat) :: char) = 128 + b"
    using assms by simp_all
  ultimately show ?thesis
    using assms by (simp add: is_rune_def del: of_char_of)
qed

lemma rune_bytes3:
  assumes "a < 16" "b < 64" "c < 64" "a = 0 \<longrightarrow> 32 \<le> b" "a = 13 \<longrightarrow> b < 32"
  shows "is_rune [char_of (224 + a :: nat), char_of (128 + b :: nat), char_of (128 + c :: nat)]"
proof -
  have "lead_byte (224 + a :: nat) = Some (1, if a = 0 then 160 else 128, if a = 13 then 159 else 191)"
    using assms by (simp add: lead_byte_def)
  moreover have "byte (char_of (224 + a :: nat) :: char) = 224 + a" "byte (char_of (128 + b :: nat) :: char) = 128 + b"
    "byte (char_of (128 + c :: nat) :: char) = 128 + c"
    using assms by simp_all
  ultimately show ?thesis
    using assms by (auto simp: is_rune_def continues_def simp del: of_char_of)
qed

lemma rune_bytes4:
  assumes "a < 5" "b < 64" "c < 64" "d < 64" "a = 0 \<longrightarrow> 16 \<le> b" "a = 4 \<longrightarrow> b < 16"
  shows "is_rune [char_of (240 + a :: nat), char_of (128 + b :: nat), char_of (128 + c :: nat), char_of (128 + d :: nat)]"
proof -
  have "lead_byte (240 + a :: nat) = Some (2, if a = 0 then 144 else 128, if a = 4 then 143 else 191)"
    using assms by (simp add: lead_byte_def)
  moreover have "byte (char_of (240 + a :: nat) :: char) = 240 + a" "byte (char_of (128 + b :: nat) :: char) = 128 + b"
    "byte (char_of (128 + c :: nat) :: char) = 128 + c" "byte (char_of (128 + d :: nat) :: char) = 128 + d"
    using assms by simp_all
  ultimately show ?thesis
    using assms by (auto simp: is_rune_def continues_def simp del: of_char_of)
qed

lemma is_rune_encode:
  assumes "n < 55296 \<or> 57344 \<le> n \<and> n < 1114112"
  shows "is_rune (utf8_encode n)"
proof -
  consider "n < 128" | "128 \<le> n" "n < 2048" | "2048 \<le> n" "n < 65536" | "65536 \<le> n"
    by linarith
  then show ?thesis
  proof cases
    case 1
    then show ?thesis
      by (simp add: utf8_encode_def is_rune_def)
  next
    case 2
    then show ?thesis
      using rune_bytes2 [of "n div 64" "n mod 64"] by (simp add: utf8_encode_def less_mult_imp_div_less)
  next
    case 3
    let ?b = "n div 64"
    have a: "n div 4096 = ?b div 64"
      by (simp add: div_mult2_eq [symmetric])
    have "32 \<le> ?b" "?b < 1024" "?b < 864 \<or> 896 \<le> ?b"
      using 3 assms by auto
    then have "?b div 64 = 0 \<longrightarrow> 32 \<le> ?b mod 64" "?b div 64 = 13 \<longrightarrow> ?b mod 64 < 32" "?b div 64 < 16"
      using div_mult_mod_eq [of ?b 64] mod_less_divisor [of 64 ?b] by (linarith | (intro impI; linarith))+
    with 3 a show ?thesis
      using rune_bytes3 [of "n div 4096" "n div 64 mod 64" "n mod 64"] by (simp add: utf8_encode_def)
  next
    case 4
    let ?b = "n div 4096"
    have a: "n div 262144 = ?b div 64"
      by (simp add: div_mult2_eq [symmetric])
    have "16 \<le> ?b" "?b < 272"
      using 4 assms by auto
    then have "?b div 64 = 0 \<longrightarrow> 16 \<le> ?b mod 64" "?b div 64 = 4 \<longrightarrow> ?b mod 64 < 16" "?b div 64 < 5"
      using div_mult_mod_eq [of ?b 64] mod_less_divisor [of 64 ?b] by (linarith | (intro impI; linarith))+
    with 4 a show ?thesis
      using rune_bytes4 [of "n div 262144" "n div 4096 mod 64" "n div 64 mod 64" "n mod 64"]
      by (simp add: utf8_encode_def)
  qed
qed

lemma hex4_less: "hex4 s = Some (n, r) \<Longrightarrow> n < 65536"
proof -
  have d: "hex_value c = Some x \<Longrightarrow> x < 16" for c x
    by (auto simp: hex_value_def Let_def split: if_splits)
  show "hex4 s = Some (n, r) \<Longrightarrow> n < 65536"
    by (cases s rule: hex4.cases) (auto split: option.splits dest!: d)
qed

lemma unicode_escape_valid: "unicode_escape s = Some (x, r) \<Longrightarrow> valid_utf8 x"
proof -
  have "\<exists>n. x = utf8_encode n \<and> (n < 55296 \<or> 57344 \<le> n \<and> n < 1114112)" if "unicode_escape s = Some (x, r)"
    using that unfolding unicode_escape_def
    by (auto split: option.splits if_splits list.splits dest!: hex4_less intro: exI [of _ 65533]; force)
  then show "unicode_escape s = Some (x, r) \<Longrightarrow> valid_utf8 x"
    using is_rune_encode valid_rune by blast
qed

lemma valid_Cons: "byte c < 128 \<Longrightarrow> valid_utf8 s \<Longrightarrow> valid_utf8 (c # s)"
  by (simp add: valid_utf8_def runes_ascii)

lemma simple_escape_small: "simple_escape e = Some x \<Longrightarrow> byte x < 128"
  by (auto simp: simple_escape_def split: if_splits)

lemma parse_str_valid: "parse_str s = Some (x, r) \<Longrightarrow> valid_utf8 x"
proof (induction s arbitrary: x r rule: parse_str.induct)
  case (2 c cs)
  have rune: "rune_width (c # cs) \<noteq> 0 \<Longrightarrow> valid_utf8 (take (rune_width (c # cs)) (c # cs))"
    by (rule valid_rune [OF is_rune_take])
  have repl: "valid_utf8 replacement"
    by (rule valid_rune [OF is_rune_replacement])
  from 2 rune repl show ?case
    by (auto simp: parse_str.simps(2) valid_ascii [of "[]"] simp del: rune_width.simps take_Suc_Cons
        split: if_splits list.splits option.splits
        intro!: valid_Cons valid_append dest: simple_escape_small unicode_escape_valid)
qed simp

fun valid_json :: "json \<Rightarrow> bool" where
  "valid_json (JStr s) = valid_utf8 s"
| "valid_json (JArr js) = list_all valid_json js"
| "valid_json (JObj ms) = list_all (\<lambda>(k, j). valid_utf8 k \<and> valid_json j) ms"
| "valid_json _ = True"

lemma literal_value: "literal t v s = Some (x, r) \<Longrightarrow> x = v"
  by (auto simp: literal_def split: if_splits)

lemma parse_valid:
  "parse_val n s = Some (v, r) \<Longrightarrow> valid_json v"
  "parse_elems n s = Some (vs, r) \<Longrightarrow> list_all valid_json vs"
  "parse_members n s = Some (kvs, r) \<Longrightarrow> list_all (\<lambda>(k, j). valid_utf8 k \<and> valid_json j) kvs"
proof (induction n s and n s and n s arbitrary: v r and vs r and kvs r
    rule: parse_val_parse_elems_parse_members.induct)
  case (2 n s)
  then show ?case
    by (fastforce split: if_splits list.splits dest: parse_str_valid literal_value)
next
  case (4 n s)
  then show ?case
    by (fastforce split: option.splits list.splits if_splits)
next
  case (6 n s)
  then show ?case
    by (fastforce split: option.splits list.splits if_splits dest: parse_str_valid)
qed auto

lemma parse_json_valid: "parse_json s = Some j \<Longrightarrow> valid_json j"
  by (auto simp: parse_json_def simp del: parse_val.simps split: option.splits if_splits dest: parse_valid(1))

end
