(* ===== verification/Store.thy ===== *)
theory Store
imports Frames Json Paths
begin

text \<open>
  internal/state/state.go: the record of the last healthy boot and the last lifecycle event, kept
  in two small files that are replaced atomically.  First the operations, then what a write does
  at every failure and crash, then the round trips.
\<close>

section \<open>The record and its encoding\<close>

record last_boot =
  lb_version :: string
  deployment_id :: string
  boot_id :: string

definition zero_last_boot :: last_boot where
  "zero_last_boot = \<lparr>lb_version = '''', deployment_id = '''', boot_id = ''''\<rparr>"

text \<open>The field tags: the two ids are left out when empty.\<close>

definition optional_member :: "string \<Rightarrow> string \<Rightarrow> string" where
  "optional_member k v = (if v = '''' then '''' else CHR 0x2C # quote_string k @ CHR 0x3A # quote_string v)"

definition marshal_last_boot :: "last_boot \<Rightarrow> string" where
  "marshal_last_boot lb =
     CHR 0x7B # quote_string ''version'' @ CHR 0x3A # quote_string (lb_version lb)
       @ optional_member ''deploymentId'' (deployment_id lb)
       @ optional_member ''bootId'' (boot_id lb) @ [CHR 0x7D]"

text \<open>A member stored into a string field: null leaves the field, another type is an error that is
  reported at the end.  Keys match their field up to case.\<close>

definition store_string :: "json \<Rightarrow> string \<Rightarrow> string option" where
  "store_string j old = (case j of JStr s \<Rightarrow> Some s | JNull \<Rightarrow> Some old | _ \<Rightarrow> None)"

fun store_members :: "(string \<times> json) list \<Rightarrow> last_boot \<Rightarrow> last_boot \<times> bool" where
  "store_members [] lb = (lb, True)"
| "store_members ((k, j) # ms) lb =
     (if fold_key k = ''version'' then
        (case store_string j (lb_version lb) of Some s \<Rightarrow> store_members ms (lb\<lparr>lb_version := s\<rparr>)
         | None \<Rightarrow> (fst (store_members ms lb), False))
      else if fold_key k = ''deploymentid'' then
        (case store_string j (deployment_id lb) of Some s \<Rightarrow> store_members ms (lb\<lparr>deployment_id := s\<rparr>)
         | None \<Rightarrow> (fst (store_members ms lb), False))
      else if fold_key k = ''bootid'' then
        (case store_string j (boot_id lb) of Some s \<Rightarrow> store_members ms (lb\<lparr>boot_id := s\<rparr>)
         | None \<Rightarrow> (fst (store_members ms lb), False))
      else store_members ms lb)"

definition unmarshal_last_boot :: "string \<Rightarrow> err + last_boot" where
  "unmarshal_last_boot b =
     (case parse_json b of None \<Rightarrow> Inl (Text ''invalid JSON'')
      | Some JNull \<Rightarrow> Inr zero_last_boot
      | Some (JObj ms) \<Rightarrow>
          (case store_members ms zero_last_boot of (lb, ok) \<Rightarrow>
             if ok then Inr lb else Inl (Text ''json: cannot unmarshal value into Go struct field''))
      | Some _ \<Rightarrow> Inl (Text ''json: cannot unmarshal value into Go value of type state.LastBoot''))"

section \<open>Operations\<close>

text \<open>A sibling temporary file is written, synced, closed and renamed; the deferred removal cleans
  up when the rename did not happen.\<close>

definition closing :: "path \<Rightarrow> unit io \<Rightarrow> unit io" where
  "closing tmp m = on_err m (\<lambda>e. after (ignore (close_open tmp)) (raise e))"

definition write_steps :: "path \<Rightarrow> string \<Rightarrow> path \<Rightarrow> unit io" where
  "write_steps p data tmp =
     after (closing tmp (write_open tmp data))
       (after (closing tmp (sync_open tmp))
         (after (close_open tmp) (rename tmp p)))"

definition write_atomic :: "path \<Rightarrow> string \<Rightarrow> unit io" where
  "write_atomic p data =
     after (mkdir_all (dirname p))
       (seq (create_temp (dirname p) ''.tmp-'') (\<lambda>tmp. deferred (write_steps p data tmp) (remove_one tmp)))"

definition ReadLastBoot :: "(last_boot \<times> bool) io" where
  "ReadLastBoot =
     seq (attempt (read_file last_boot_file)) (\<lambda>r. case r of
         Inl e \<Rightarrow> if is_not_exist e then return (zero_last_boot, False)
                  else raise (Wrap ''read last-boot: '' e '''')
       | Inr b \<Rightarrow> (case unmarshal_last_boot b of
             Inl e \<Rightarrow> raise (Wrap ''parse last-boot: '' e '''')
           | Inr lb \<Rightarrow> return (lb, True)))"

definition WriteLastBoot :: "last_boot \<Rightarrow> unit io" where
  "WriteLastBoot lb = write_atomic last_boot_file (marshal_last_boot lb)"

definition WriteLastEvent :: "string \<Rightarrow> unit io" where
  "WriteLastEvent msg = write_atomic last_event_file (msg @ [CHR 0x0A])"

definition ReadLastEvent :: "string io" where
  "ReadLastEvent =
     seq (attempt (read_file last_event_file)) (\<lambda>r. case r of
         Inl e \<Rightarrow> if is_not_exist e then return '''' else raise e
       | Inr b \<Rightarrow> return (trim_space b))"

definition fileExists :: "path \<Rightarrow> bool io" where
  "fileExists p =
     seq (attempt (stat p)) (\<lambda>r. case r of
         Inr _ \<Rightarrow> return True
       | Inl e \<Rightarrow> if is_not_exist e then return False else raise e)"

fun any_exists :: "path list \<Rightarrow> bool io" where
  "any_exists [] = return False"
| "any_exists (p # ps) = seq (fileExists p) (\<lambda>ok. if ok then return True else any_exists ps)"

definition state_Exists :: "bool io" where
  "state_Exists = any_exists [last_boot_file, last_event_file, manifests_dir @ [''kube-apiserver.yaml'']]"

section \<open>The encoding is read back\<close>

text \<open>What remains of a record that goes through its encoding: invalid bytes are replaced.\<close>

definition stored_as :: "last_boot \<Rightarrow> last_boot" where
  "stored_as lb = \<lparr>lb_version = to_valid (lb_version lb), deployment_id = to_valid (deployment_id lb),
     boot_id = to_valid (boot_id lb)\<rparr>"

definition valid_boot :: "last_boot \<Rightarrow> bool" where
  "valid_boot lb \<longleftrightarrow> valid_utf8 (lb_version lb) \<and> valid_utf8 (deployment_id lb) \<and> valid_utf8 (boot_id lb)"

lemma stored_as_fixed: "stored_as lb = lb \<longleftrightarrow> valid_boot lb"
  by (cases lb) (simp add: stored_as_def valid_boot_def to_valid_fixed)

lemma stored_as_id [simp]: "valid_boot lb \<Longrightarrow> stored_as lb = lb"
  by (simp add: stored_as_fixed)

lemma parse_val_object:
  "parse_val (Suc n) (CHR 0x7B # quote_string k @ r) =
     map_option (apfst JObj) (parse_members n (quote_string k @ r))"
  by (simp add: quote_string_Cons)

lemma to_valid_tags [simp]: "to_valid ''version'' = ''version''" "to_valid ''deploymentId'' = ''deploymentId''"
  "to_valid ''bootId'' = ''bootId''"
  by (simp_all add: to_valid_def runes_ascii)

lemma marshal_members:
  "parse_members (Suc (Suc (Suc (Suc n))))
     (quote_string ''version'' @ CHR 0x3A # quote_string v @ optional_member ''deploymentId'' d
       @ optional_member ''bootId'' b @ [CHR 0x7D]) =
   Some ((''version'', JStr (to_valid v)) # (if d = '''' then [] else [(''deploymentId'', JStr (to_valid d))])
       @ (if b = '''' then [] else [(''bootId'', JStr (to_valid b))]), [])"
  by (simp add: optional_member_def parse_member_more parse_member_last del: parse_members.simps)

lemma marshal_parses:
  "parse_json (marshal_last_boot lb) =
     Some (JObj ((''version'', JStr (to_valid (lb_version lb)))
       # (if deployment_id lb = '''' then [] else [(''deploymentId'', JStr (to_valid (deployment_id lb)))])
       @ (if boot_id lb = '''' then [] else [(''bootId'', JStr (to_valid (boot_id lb)))])))"
proof -
  let ?n = "2 * length (marshal_last_boot lb)"
  have "length (marshal_last_boot lb) \<ge> 4"
    by (simp add: marshal_last_boot_def quote_string_def)
  then have "4 \<le> ?n"
    by simp
  then obtain m where "?n = 4 + m"
    by (metis le_Suc_ex)
  then have n: "?n = Suc (Suc (Suc (Suc m)))"
    by simp
  show ?thesis
    unfolding parse_json_def n
    by (simp add: marshal_last_boot_def parse_val_object marshal_members skip_ws_def max_nesting_def
        del: parse_val.simps parse_members.simps)
qed

lemma fold_key_tags: "fold_key ''version'' = ''version''" "fold_key ''deploymentId'' = ''deploymentid''"
  "fold_key ''bootId'' = ''bootid''"
  by (simp_all add: fold_key_def runes_ascii lower_char_def char_of_eq_iff)

lemma unmarshal_marshal: "unmarshal_last_boot (marshal_last_boot lb) = Inr (stored_as lb)"
  by (simp add: unmarshal_last_boot_def marshal_parses fold_key_tags store_string_def
      zero_last_boot_def stored_as_def)

text \<open>A record that was read consists of valid text, so it is stored as it is.\<close>

lemma store_members_valid:
  "list_all (\<lambda>(k, j). valid_utf8 k \<and> valid_json j) ms \<Longrightarrow> valid_boot lb \<Longrightarrow> valid_boot (fst (store_members ms lb))"
  by (induction ms lb rule: store_members.induct)
    (auto simp: store_string_def valid_boot_def split: option.split json.splits)

lemma unmarshal_valid: "unmarshal_last_boot c = Inr lb \<Longrightarrow> valid_boot lb"
proof -
  assume u: "unmarshal_last_boot c = Inr lb"
  have z: "valid_boot zero_last_boot"
    by (simp add: valid_boot_def zero_last_boot_def)
  from u show ?thesis
    using parse_json_valid [of c] store_members_valid [OF _ z]
    by (auto simp: unmarshal_last_boot_def z split: option.splits json.splits prod.splits if_splits) fastforce
qed

section \<open>An atomic write, at every failure and crash\<close>

definition temp_name :: "nat \<Rightarrow> string" where
  "temp_name k = ''.tmp-'' @ show_nat k"

lemma joinp_temp: "joinp dir (''.tmp-'' @ show_nat k) = dir @ [temp_name k]"
  unfolding temp_name_def by (rule joinp_simple [OF simple_temp_name])

lemma temp_name_neq: "\<not> prefix ''.tmp-'' n \<Longrightarrow> temp_name k \<noteq> n"
  by (auto simp: temp_name_def)

lemma write_open_then:
  assumes "write_open tmp data w = (Ok (), u)" "look w tmp = Some (File c)"
  shows "look u tmp = Some (File data)"
  using write_open_Ok [OF assms(1)] assms(2) by (auto simp: fill_def is_file_iff)

text \<open>Nothing but the missing directories above the file, the temporary files beside it and the
  file itself changes.\<close>

definition temp_files :: "path \<Rightarrow> path set" where
  "temp_files dir = {q. \<exists>k r. q = dir @ temp_name k # r}"

definition write_zone :: "path \<Rightarrow> path set" where
  "write_zone dir = above dir \<union> temp_files dir"

lemma temp_in_zone: "prefix (dir @ [temp_name k]) q \<Longrightarrow> q \<in> write_zone dir"
  by (auto simp: write_zone_def temp_files_def prefix_def)

lemma target_not_in_zone:
  assumes "\<not> prefix ''.tmp-'' n"
  shows "dir @ n # r \<notin> write_zone dir"
  using temp_name_neq [OF assms] by (auto simp: write_zone_def temp_files_def prefix_def)

lemma closing_Ok [run_simps]: "closing tmp m w = (Ok (), u) \<longleftrightarrow> m w = (Ok (), u)"
  by (auto simp: closing_def run_simps)

lemma closing_outside [guar]:
  "guarantees (same_outside A) m \<Longrightarrow> guarantees (same_outside A) (closing tmp m)"
  unfolding closing_def by (intro guar)

lemma closing_wf [guar]: "guarantees keeps_wf m \<Longrightarrow> guarantees keeps_wf (closing tmp m)"
  unfolding closing_def by (intro guar)

lemma write_steps_cases:
  assumes run: "write_steps p data tmp w = (r, v)" and tmp: "look w tmp = Some (File c)"
    and "tmp \<noteq> p" and A: "tmp \<in> A"
  obtains (kept) "same_outside A (fs w) (fs v)" "r \<noteq> Ok ()"
    | (replaced) u t where "same_outside A (fs w) (fs u)" "look u tmp = Some (File data)"
        "r = Ok ()" "\<not> is_dir (fs u) p" "\<not> prefix tmp p" "fs v = move tmp p t (fs u)"
        "keeps_wf (fs w) (fs u)"
  using run [unfolded write_steps_def]
proof (cases rule: after_cases)
  case (stopped r')
  have "guarantees (same_outside A) (closing tmp (write_open tmp data))"
    using A by (intro guar)
  from guaranteesD [OF this stopped(1)] stopped(3) that(1) show ?thesis
    by blast
next
  case wr: (through u1)
  have g: "guarantees (same_outside A) (closing tmp (write_open tmp data))"
    using A by (intro guar)
  have k: "guarantees keeps_wf (closing tmp (write_open tmp data))"
    by (intro guar)
  note w1 = guaranteesD [OF g wr(1)] guaranteesD [OF k wr(1)]
  have u1: "look u1 tmp = Some (File data)"
    using write_open_then [OF _ tmp] wr(1) by (simp add: run_simps)
  from wr(2) show ?thesis
  proof (cases rule: after_cases)
    case (stopped r')
    have "guarantees (same_outside A) (closing tmp (sync_open tmp))"
      by (intro guar)
    from guaranteesD [OF this stopped(1)] stopped(3) that(1) w1(1) show ?thesis
      by (blast intro: outside.rel_trans)
  next
    case sync: (through u2)
    have u2: "fs u2 = fs u1"
      using sync(1) sync_open_Ok by (simp add: run_simps)
    from sync(2) show ?thesis
    proof (cases rule: after_cases)
      case (stopped r')
      have "guarantees (same_outside A) (close_open tmp)"
        by (intro guar)
      from guaranteesD [OF this stopped(1)] stopped(3) that(1) w1(1) u2 show ?thesis
        by (auto intro: outside.rel_trans)
    next
      case close: (through u3)
      have u3: "fs u3 = fs u1"
        using close_open_Ok [OF close(1)] u2 by simp
      from close(2) \<open>tmp \<noteq> p\<close> show ?thesis
        by (cases rule: rename_cases) (use that u1 u3 w1 in auto)
    qed
  qed
qed

text \<open>The rename, seen from before the write: the target has the data, the temporary name is gone.\<close>

lemma after_replace:
  assumes wf: "wf_files f" and fu: "same_outside {tmp} f u" "keeps_wf f u"
    and tmp: "lookup u tmp = Some (File data)" and p: "\<not> is_dir u p" "\<not> prefix tmp p" "\<not> prefix p tmp"
    and v: "v = move tmp p t u"
  shows "lookup v p = Some (File data)" "lookup v tmp = None"
    "q \<noteq> p \<Longrightarrow> q \<noteq> tmp \<Longrightarrow> lookup v q = lookup f q"
proof -
  have wfu: "wf_files u"
    using wf fu(2) by (simp add: keeps_wf_def)
  note look = lookup_move [OF p(2,3), of t u]
  show "lookup v p = Some (File data)" "lookup v tmp = None"
    using tmp p by (auto simp: v look)
  assume q: "q \<noteq> p" "q \<noteq> tmp"
  then have uf: "lookup u q = lookup f q"
    using fu(1) by (simp add: same_outside_def)
  have nd: "lookup x (y @ s) = None" if "wf_files x" "\<not> is_dir x y" "s \<noteq> []" for x y s
  proof (rule ccontr)
    assume "lookup x (y @ s) \<noteq> None"
    then show False
      using that wf_ancestor [of x "y @ s" _ y] by (auto simp: is_dir_def strict_prefix_def)
  qed
  have tnd: "\<not> is_dir u tmp"
    using tmp by (simp add: is_dir_def)
  show "lookup v q = lookup f q"
  proof (cases "prefix p q")
    case True
    then obtain s where s: "q = p @ s" "s \<noteq> []"
      using q(1) by (auto simp: prefix_def)
    then show ?thesis
      using nd [OF wfu p(1) s(2)] nd [OF wfu tnd s(2)] uf by (simp add: v look)
  next
    case False
    show ?thesis
    proof (cases "prefix tmp q")
      case True
      then obtain s where s: "q = tmp @ s" "s \<noteq> []"
        using q(2) by (auto simp: prefix_def)
      then show ?thesis
        using nd [OF wfu tnd s(2)] uf False by (simp add: v look)
    next
      case False
      then show ?thesis
        using \<open>\<not> prefix p q\<close> uf by (simp add: v look)
    qed
  qed
qed

text \<open>The steps under the temporary name, with its removal at the end.\<close>

lemma temp_steps_cases:
  assumes run: "deferred (write_steps p data tmp) (remove_one tmp) w = (r, v)" and wf: "wf_files (fs w)"
    and tmp: "look w tmp = Some (File c)" and np: "\<not> prefix tmp p" "\<not> prefix p tmp"
  obtains (kept) "same_outside (below tmp) (fs w) (fs v)" "r \<noteq> Ok ()"
    | (replaced) "look v p = Some (File data)" "\<And>q. q \<noteq> p \<Longrightarrow> \<not> prefix tmp q \<Longrightarrow> look v q = look w q"
        "\<And>q. prefix tmp q \<Longrightarrow> look v q = None"
proof -
  from run obtain r' u where st: "write_steps p data tmp w = (r', u)"
    and rm: "v = u \<or> (\<exists>y. remove_one tmp u = (y, v))" and ok: "r = Ok () \<longrightarrow> r' = Ok ()"
    by (auto simp: deferred_def split: prod.splits res.splits)
  have g: "guarantees (same_outside (below tmp)) (remove_one tmp)"
    by (intro guar) simp
  have uv: "same_outside (below tmp) (fs u) (fs v)"
    using rm guaranteesD [OF g] outside.rel_refl by blast
  have ne: "tmp \<noteq> p"
    using np by auto
  from st tmp ne singletonI [of tmp] show thesis
  proof (cases rule: write_steps_cases)
    case k: kept
    have "same_outside (below tmp) (fs w) (fs u)"
      by (rule same_outside_mono [OF k(1)]) simp
    with uv k(2) ok show ?thesis
      by (intro kept) (blast intro: outside.rel_trans)+
  next
    case (replaced x t')
    note moved = after_replace [OF wf replaced(1) replaced(7) replaced(2,4) np replaced(6)]
    have "guarantees keeps_wf (write_steps p data tmp)"
      unfolding write_steps_def by (intro guar)
    from guaranteesD [OF this st] wf have wfu: "wf_files (fs u)"
      by (simp add: keeps_wf_def)
    have only: "guarantees only_removes (remove_one tmp)"
      by (rule guar)
    have "look v q = None" if "prefix tmp q" for q
      using wf_below_absent [OF wfu moved(2) that] rm guaranteesD [OF only] by (metis only_removes_def)
    moreover have "look v p = Some (File data)"
      using moved(1) uv np(1) by (simp add: same_outside_def)
    moreover have "look v q = look w q" if "q \<noteq> p" "\<not> prefix tmp q" for q
      using moved(3) [of q] that uv by (auto simp: same_outside_def)
    ultimately show ?thesis
      by (intro that(2))
  qed
qed

text \<open>writeAtomic, up to the point where the temporary file is there.\<close>

lemma temp_made:
  assumes mk: "mkdir_all dir w = (Ok (), w1)" and ct: "create_temp dir ''.tmp-'' w1 = (Ok tmp, w2)"
    and wf: "wf_files (fs w)"
  obtains x where "tmp = dir @ [temp_name x]" "look w2 tmp = Some (File '''')" "wf_files (fs w2)"
    "same_outside (above dir \<union> {tmp}) (fs w) (fs w2)" "\<And>q. prefix tmp q \<Longrightarrow> \<not> prefix q dir \<Longrightarrow> look w q = None"
proof -
  have g: "guarantees (same_outside (above dir)) (mkdir_all dir)" and k: "guarantees keeps_wf (mkdir_all dir)"
    "guarantees keeps_wf (create_temp dir ''.tmp-'')"
    by (intro guar; simp)+
  note w1 = guaranteesD [OF g mk]
  have wf1: "wf_files (fs w1)"
    using guaranteesD [OF k(1) mk] wf by (simp add: keeps_wf_def)
  obtain x t where tmp: "tmp = dir @ [temp_name x]" and new: "look w1 tmp = None"
    and w2: "fs w2 = set_node tmp (File '''') t (fs w1)"
    using create_temp_Ok [OF ct, unfolded joinp_temp] by blast
  show thesis
  proof (rule that [OF tmp])
    show "look w2 tmp = Some (File '''')"
      by (simp add: w2)
    show "wf_files (fs w2)"
      using guaranteesD [OF k(2) ct] wf1 by (simp add: keeps_wf_def)
    show "same_outside (above dir \<union> {tmp}) (fs w) (fs w2)"
      using w1 by (auto simp: same_outside_def w2)
    fix q
    assume "prefix tmp q" "\<not> prefix q dir"
    with wf_below_absent [OF wf1 new] w1 show "look w q = None"
      by (auto simp: same_outside_def)
  qed
qed

lemma write_atomic_cases:
  assumes run: "write_atomic (dir @ [n]) data w = (r, v)" and wf: "wf_files (fs w)"
    and n: "\<not> prefix ''.tmp-'' n"
  obtains (kept) "same_outside (write_zone dir) (fs w) (fs v)" "r \<noteq> Ok ()"
    | (replaced) "look v (dir @ [n]) = Some (File data)"
        "\<And>q. q \<noteq> dir @ [n] \<Longrightarrow> \<not> prefix q dir \<Longrightarrow> look v q = look w q"
  using run [unfolded write_atomic_def dirname_snoc]
proof (cases rule: after_cases)
  case (stopped r')
  have "guarantees (same_outside (write_zone dir)) (mkdir_all dir)"
    by (intro guar) (simp add: write_zone_def)
  from guaranteesD [OF this stopped(1)] stopped(3) that(1) show ?thesis
    by blast
next
  case mk: (through w1)
  have "joinp dir (''.tmp-'' @ show_nat x) \<in> write_zone dir" for x
    unfolding joinp_temp by (rule temp_in_zone) simp
  then have g: "guarantees (same_outside (write_zone dir)) (create_temp dir ''.tmp-'')"
    "guarantees (same_outside (write_zone dir)) (mkdir_all dir)"
    by (rule outside_create_temp, intro guar) (simp add: write_zone_def)
  from mk(2) show ?thesis
  proof (cases rule: seq_cases)
    case (stopped r')
    from guaranteesD [OF g(2) mk(1)] guaranteesD [OF g(1) stopped(1)] stopped(3) that(1) show ?thesis
      by (blast intro: outside.rel_trans)
  next
    case ct: (through tmp w2)
    obtain x where t: "tmp = dir @ [temp_name x]" "look w2 tmp = Some (File '''')" "wf_files (fs w2)"
      "same_outside (above dir \<union> {tmp}) (fs w) (fs w2)" "\<forall>q. prefix tmp q \<longrightarrow> \<not> prefix q dir \<longrightarrow> look w q = None"
      using temp_made [OF mk(1) ct(1) wf] by metis
    have np: "\<not> prefix tmp (dir @ [n])" "\<not> prefix (dir @ [n]) tmp"
      using temp_name_neq [OF n, of x] by (auto simp: t(1))
    have zone: "below tmp \<subseteq> write_zone dir"
      unfolding t(1) below_def using temp_in_zone by blast
    moreover have "above dir \<subseteq> write_zone dir" "tmp \<in> below tmp"
      by (auto simp: write_zone_def)
    ultimately have zone2: "above dir \<union> {tmp} \<subseteq> write_zone dir"
      by blast
    from ct(2) t(3,2) np show ?thesis
    proof (cases rule: temp_steps_cases)
      case kept
      have "same_outside (write_zone dir) (fs w) (fs v)"
        using same_outside_mono [OF t(4) zone2] same_outside_mono [OF kept(1) zone] by (rule outside.rel_trans)
      with kept(2) that(1) show ?thesis
        by blast
    next
      case replaced
      have "look v q = look w q" if "q \<noteq> dir @ [n]" "\<not> prefix q dir" for q
        using replaced(2,3) [of q] t(4) spec [OF t(5), of q] that by (cases "prefix tmp q") (auto simp: same_outside_def)
      with replaced(1) that(2) show ?thesis
        by blast
    qed
  qed
qed

lemma create_temp_name: "create_temp dir ''.tmp-'' w = (Ok tmp, v) \<Longrightarrow> \<exists>x. tmp = dir @ [temp_name x]"
  using create_temp_Ok [of dir "''.tmp-''" w tmp v, unfolded joinp_temp] by blast

lemma below_temp: "below (dir @ [temp_name x]) \<subseteq> write_zone dir"
  unfolding below_def using temp_in_zone by blast

lemma outside_write_atomic [guar]:
  assumes "write_zone dir \<subseteq> A" "below (dir @ [n]) \<subseteq> A"
  shows "guarantees (same_outside A) (write_atomic (dir @ [n]) data)"
proof -
  have tmp: "guarantees (same_outside A) (deferred (write_steps (dir @ [n]) data t) (remove_one t))"
    if "t = dir @ [temp_name x]" for t x
  proof -
    have "below t \<subseteq> A" "t \<in> A"
      using that below_temp [of dir x] assms(1) by auto
    then show ?thesis
      unfolding write_steps_def using assms(2) by (intro guar)
  qed
  have "joinp dir (''.tmp-'' @ show_nat x) \<in> A" for x
    unfolding joinp_temp using temp_in_zone [of dir x "dir @ [temp_name x]"] assms(1) by auto
  then have "guarantees (same_outside A) (create_temp dir ''.tmp-'')"
    by (rule outside_create_temp)
  then have "guarantees (same_outside A) (seq (create_temp dir ''.tmp-'')
      (\<lambda>t. deferred (write_steps (dir @ [n]) data t) (remove_one t)))"
    by (rule outside.gu_seq_value) (auto dest!: create_temp_name intro: tmp)
  moreover have "above dir \<subseteq> A"
    using assms(1) by (auto simp: write_zone_def)
  then have "guarantees (same_outside A) (mkdir_all dir)"
    by (rule outside_mkdir_all)
  ultimately show ?thesis
    unfolding write_atomic_def dirname_snoc by (rule outside.gu_after [rotated])
qed

lemma wf_write_atomic [guar]: "guarantees keeps_wf (write_atomic p data)"
proof -
  have tmp: "guarantees keeps_wf (deferred (write_steps p data t) (remove_one t))" if "t = dir @ [temp_name x]" for t dir x
    unfolding write_steps_def that by (intro guar) simp
  have "guarantees keeps_wf (seq (create_temp (dirname p) ''.tmp-'')
      (\<lambda>t. deferred (write_steps p data t) (remove_one t)))"
    by (rule wfr.gu_seq_value [OF wf_create_temp]) (auto dest!: create_temp_name intro: tmp)
  then show ?thesis
    unfolding write_atomic_def by (rule wfr.gu_after [OF wf_mkdir_all])
qed

section \<open>Properties\<close>

lemma last_boot_split: "last_boot_file = state_dir @ [''last-boot.json'']"
  by (simp add: last_boot_file_def)

lemma last_event_split: "last_event_file = state_dir @ [''last-event'']"
  by (simp add: last_event_file_def)

text \<open>Once a file is in place, a read that meets no fault returns it.\<close>

lemma read_file_present: "look w p = Some (File c) \<Longrightarrow> read_file p (w\<lparr>sched := []\<rparr>) = (Ok c, w\<lparr>sched := []\<rparr>)"
  by (simp add: read_file_def syscall_def tick_def calm_def)

lemma write_atomic_Ok:
  assumes "fst (write_atomic (dir @ [n]) data w) = Ok ()" "wf_files (fs w)" "\<not> prefix ''.tmp-'' n"
  shows "look (snd (write_atomic (dir @ [n]) data w)) (dir @ [n]) = Some (File data)"
proof -
  obtain v where "write_atomic (dir @ [n]) data w = (Ok (), v)"
    using assms(1) by (cases "write_atomic (dir @ [n]) data w") auto
  from this assms(2,3) have "look v (dir @ [n]) = Some (File data)"
    by (cases rule: write_atomic_cases) auto
  with \<open>write_atomic (dir @ [n]) data w = (Ok (), v)\<close> show ?thesis
    by simp
qed

text \<open>C18: an atomic write, under every schedule of failures and crashes: the target has its old
  contents, or the new contents in full; a success means the new ones, and then no other entry
  has changed except that missing parent directories were made; in every case nothing changes but
  the parent directories, temporary files beside the target and the target.\<close>

theorem write_atomic_all_or_nothing:
  assumes "wf_files (fs w)" and "\<not> prefix ''.tmp-'' n" and "write_atomic (dir @ [n]) data w = (r, v)"
  shows "(look v (dir @ [n]) = look w (dir @ [n]) \<and> r \<noteq> Ok () \<or> look v (dir @ [n]) = Some (File data))
    \<and> (\<forall>q. q \<noteq> dir @ [n] \<and> q \<notin> write_zone dir \<longrightarrow> look v q = look w q)
    \<and> (r = Ok () \<longrightarrow> (\<forall>q. q \<noteq> dir @ [n] \<and> \<not> prefix q dir \<longrightarrow> look v q = look w q))"
  using assms(3,1,2)
proof (cases rule: write_atomic_cases)
  case kept
  then show ?thesis
    using target_not_in_zone [OF assms(2), of dir "[]"] by (auto simp: same_outside_def)
next
  case replaced
  then show ?thesis
    by (auto simp: write_zone_def)
qed

definition sample_files :: files where
  "sample_files = \<lparr>ents = [([], Dir), ([''var''], Dir), ([''var'', ''lib''], Dir),
       ([''var'', ''lib'', ''nanok8s''], Dir), (state_dir, Dir),
       (last_boot_file, File ''old'')],
     stamps = []\<rparr>"

definition sample_boot :: last_boot where
  "sample_boot = \<lparr>lb_version = ''v0.1'', deployment_id = '''', boot_id = ''b''\<rparr>"

lemma write_atomic_all_or_nothing_witness:
  "look (snd (write_atomic last_boot_file ''new'' (quiet sample_files\<lparr>sched := [calm, calm, calm\<lparr>plan := Crash, done_part := 1\<rparr>]\<rparr>)))
     last_boot_file \<in> {Some (File ''old''), Some (File ''new'')}"
proof -
  let ?w = "quiet sample_files\<lparr>sched := [calm, calm, calm\<lparr>plan := Crash, done_part := 1\<rparr>]\<rparr>"
  have "wf_files (fs ?w)" "look ?w last_boot_file = Some (File ''old'')"
    by code_simp+
  moreover have "\<not> prefix ''.tmp-'' ''last-boot.json''"
    by simp
  moreover obtain r v where "write_atomic (state_dir @ [''last-boot.json'']) ''new'' ?w = (r, v)"
    by fastforce
  ultimately show ?thesis
    using write_atomic_all_or_nothing [of ?w "''last-boot.json''" state_dir "''new''" r v]
    by (auto simp: last_boot_split)
qed

text \<open>C27: a record that was written is read back: after a successful WriteLastBoot, a ReadLastBoot
  that meets no fault returns this record with every byte that is not valid UTF-8 replaced by U+FFFD;
  it is exactly the record that was written if and only if its strings are valid UTF-8, whatever else
  they contain.\<close>

theorem ReadLastBoot_WriteLastBoot:
  assumes "wf_files (fs w)" and "fst (WriteLastBoot lb w) = Ok ()"
  shows "fst (ReadLastBoot ((snd (WriteLastBoot lb w))\<lparr>sched := []\<rparr>)) = Ok (stored_as lb, True)
    \<and> (stored_as lb = lb \<longleftrightarrow> valid_boot lb)"
proof -
  have "look (snd (WriteLastBoot lb w)) last_boot_file = Some (File (marshal_last_boot lb))"
    using write_atomic_Ok [OF assms(2) [unfolded WriteLastBoot_def last_boot_split] assms(1)]
    by (simp add: WriteLastBoot_def last_boot_split)
  from read_file_present [OF this] show ?thesis
    by (simp add: ReadLastBoot_def seq_def attempt_def unmarshal_marshal return_def stored_as_fixed)
qed

definition odd_boot :: last_boot where
  "odd_boot = \<lparr>lb_version = [CHR ''v'', CHR 0xFF], deployment_id = '''', boot_id = ''b''\<rparr>"

lemma ReadLastBoot_WriteLastBoot_witness:
  "fst (ReadLastBoot ((snd (WriteLastBoot odd_boot (quiet sample_files)))\<lparr>sched := []\<rparr>)) =
     Ok (odd_boot\<lparr>lb_version := CHR ''v'' # replacement\<rparr>, True) \<and> \<not> valid_boot odd_boot"
proof -
  have "wf_files (fs (quiet sample_files))" "fst (WriteLastBoot odd_boot (quiet sample_files)) = Ok ()"
    by code_simp+
  note stored = ReadLastBoot_WriteLastBoot [OF this]
  have "stored_as odd_boot = odd_boot\<lparr>lb_version := CHR ''v'' # replacement\<rparr>"
    by code_simp
  moreover have "\<not> valid_boot odd_boot"
    by code_simp
  ultimately show ?thesis
    using stored by simp
qed

text \<open>The event a WriteLastEvent recorded is read back without the white space around it.\<close>

lemma ReadLastEvent_WriteLastEvent:
  assumes "wf_files (fs w)" and "fst (WriteLastEvent msg w) = Ok ()"
  shows "fst (ReadLastEvent ((snd (WriteLastEvent msg w))\<lparr>sched := []\<rparr>)) = Ok (trim_space msg)"
proof -
  have "look (snd (WriteLastEvent msg w)) last_event_file = Some (File (msg @ [CHR 0x0A]))"
    using write_atomic_Ok [OF assms(2) [unfolded WriteLastEvent_def last_event_split] assms(1)]
    by (simp add: WriteLastEvent_def last_event_split)
  from read_file_present [OF this] show ?thesis
    by (simp add: ReadLastEvent_def seq_def attempt_def return_def trim_space_newline_any)
qed

lemma ReadLastEvent_WriteLastEvent_witness:
  "fst (ReadLastEvent ((snd (WriteLastEvent ''boot '' (quiet sample_files)))\<lparr>sched := []\<rparr>)) = Ok ''boot''"
proof -
  have "fst (ReadLastEvent ((snd (WriteLastEvent ''boot '' (quiet sample_files)))\<lparr>sched := []\<rparr>)) =
      Ok (trim_space ''boot '')"
    by (rule ReadLastEvent_WriteLastEvent) code_simp+
  moreover have "trim_space ''boot '' = ''boot''"
    by code_simp
  ultimately show ?thesis
    by simp
qed

lemma any_exists_Ok:
  "any_exists ps w = (Ok b, v) \<Longrightarrow> fs v = fs w \<and> (b \<longleftrightarrow> (\<exists>p \<in> set ps. look w p \<noteq> None))"
proof (induction ps arbitrary: w)
  case (Cons p ps)
  from Cons.prems obtain ok u where e: "fileExists p w = (Ok ok, u)"
    and rest: "(if ok then return True else any_exists ps) u = (Ok b, v)"
    by (auto simp: run_simps)
  from e have "fs u = fs w \<and> (ok \<longleftrightarrow> look w p \<noteq> None)"
    by (auto simp: fileExists_def run_simps split: if_splits dest!: stat_Ok stat_Err)
  with rest Cons.IH [of u] show ?case
    by (cases ok) (auto simp: run_simps)
qed (simp add: run_simps)

text \<open>Exists answers, whenever it answers and whatever calls fail on the way, whether one of the
  three files of an earlier bootstrap is there; it changes nothing.\<close>

lemma state_Exists_iff:
  assumes "state_Exists w = (Ok b, v)"
  shows "fs v = fs w \<and> (b \<longleftrightarrow> look w last_boot_file \<noteq> None \<or> look w last_event_file \<noteq> None \<or>
     look w (manifests_dir @ [''kube-apiserver.yaml'']) \<noteq> None)"
  using any_exists_Ok [OF assms [unfolded state_Exists_def]] by auto

text \<open>What ReadLastBoot returns when nothing fails, on every branch: no file is a fresh
  install, a file that does not decode is an error, and otherwise the decoded record.\<close>

lemma ReadLastBoot_spec:
  "fst (ReadLastBoot (w\<lparr>sched := []\<rparr>)) =
     (case look w last_boot_file of
        Some (File c) \<Rightarrow> (case unmarshal_last_boot c of Inr lb \<Rightarrow> Ok (lb, True)
            | Inl e \<Rightarrow> Err (Wrap ''parse last-boot: '' e ''''))
      | Some Dir \<Rightarrow> Err (Wrap ''read last-boot: '' (PathErr ''read'' last_boot_file EISDIR) '''')
      | None \<Rightarrow> if file_above (fs w) last_boot_file
          then Err (Wrap ''read last-boot: '' (PathErr ''open'' last_boot_file ENOTDIR) '''')
          else Ok (zero_last_boot, False))"
  by (simp add: ReadLastBoot_def seq_def attempt_def read_file_def syscall_def tick_def calm_def
      return_def raise_def absent_errno_def split: option.split node.split sum.split)

end
