(* ===== verification/Backup.thy ===== *)
theory Backup
imports Store
begin

text \<open>
  internal/backup/backup.go: snapshots of the live trees as directories below backups_dir, their
  restore, their choice and their pruning.  This theory holds the operations and the contract of
  the program cp, which is the parameter \<open>sh\<close>; the properties are in Backup_Snapshot,
  Backup_Restore and Backup_Retention.
\<close>

section \<open>Names\<close>

definition kubelet_state_files :: "string list" where
  "kubelet_state_files = [''config.yaml'', ''instance-config.yaml'', ''kubeadm-flags.env'']"

definition meta_file_name :: string where
  "meta_file_name = ''meta.json''"

definition BootID :: "string io" where
  "BootID = seq (wrapped ''read boot_id: '' (read_file boot_id_file)) (\<lambda>b. return (trim_space b))"

definition backup_Name :: "last_boot \<Rightarrow> string" where
  "backup_Name meta = deployment_id meta @ CHR ''_'' # boot_id meta"

definition backup_Exists :: "string \<Rightarrow> bool io" where
  "backup_Exists name =
     seq (attempt (stat (joinp backups_dir name))) (\<lambda>r. case r of
         Inr _ \<Rightarrow> return True
       | Inl e \<Rightarrow> if is_not_exist e then return False else raise e)"

section \<open>Copies\<close>

text \<open>A call of cp: the flags, then source and destination.\<close>

definition cp_call :: "string list \<Rightarrow> path \<Rightarrow> path \<Rightarrow> call" where
  "cp_call flags src dst = Word ''cp'' # map Word flags @ [Path src, Path dst]"

definition runCp :: "shell \<Rightarrow> path \<Rightarrow> path \<Rightarrow> string list \<Rightarrow> unit io" where
  "runCp sh src dst flags =
     seq (extern sh (cp_call flags src dst)) (\<lambda>r. case failure r of
         Some e \<Rightarrow> raise (Wrap (''cp ['' @ join_with '' '' (map arg_text (tl (cp_call flags src dst))) @ '']: '')
                    e ('': '' @ trim_space (stderr r)))
       | None \<Rightarrow> return ())"

definition tree_flags :: "string list" where
  "tree_flags = [''--recursive'', ''--no-target-directory'',
     ''--preserve=mode,ownership,timestamps,links'', ''--reflink=auto'']"

definition file_flags :: "string list" where
  "file_flags = [''--preserve=mode,ownership,timestamps,links'', ''--reflink=auto'']"

definition copyTree :: "shell \<Rightarrow> path \<Rightarrow> path \<Rightarrow> unit io" where
  "copyTree sh src dst = runCp sh src dst tree_flags"

definition copyFile :: "shell \<Rightarrow> path \<Rightarrow> path \<Rightarrow> unit io" where
  "copyFile sh src dst = runCp sh src dst file_flags"

definition copyDirIfExists :: "shell \<Rightarrow> path \<Rightarrow> path \<Rightarrow> unit io" where
  "copyDirIfExists sh src dst =
     seq (attempt (stat src)) (\<lambda>r. case r of
         Inl e \<Rightarrow> if is_not_exist e then return () else raise e
       | Inr _ \<Rightarrow> copyTree sh src dst)"

definition copyFileIfExists :: "shell \<Rightarrow> path \<Rightarrow> path \<Rightarrow> unit io" where
  "copyFileIfExists sh src dst =
     seq (attempt (stat src)) (\<lambda>r. case r of
         Inl e \<Rightarrow> if is_not_exist e then return () else raise e
       | Inr _ \<Rightarrow> after (mkdir_all (dirname dst)) (copyFile sh src dst))"

section \<open>Taking a snapshot\<close>

definition writeMeta :: "path \<Rightarrow> last_boot \<Rightarrow> unit io" where
  "writeMeta dir meta = write_file (joinp dir meta_file_name) (marshal_last_boot meta)"

definition rollbackTmp :: "path \<Rightarrow> err \<Rightarrow> unit io" where
  "rollbackTmp tmp cause =
     seq (attempt (remove_all tmp)) (\<lambda>r. case r of
         Inl e \<Rightarrow> raise (Joined [cause, Wrap ''rollback cleanup: '' e ''''])
       | Inr _ \<Rightarrow> raise cause)"

definition or_rollback :: "path \<Rightarrow> unit io \<Rightarrow> unit io" where
  "or_rollback tmp m = on_err m (rollbackTmp tmp)"

text \<open>The part of Create that fills the temporary directory.\<close>

definition fill_snapshot :: "shell \<Rightarrow> last_boot \<Rightarrow> path \<Rightarrow> unit io" where
  "fill_snapshot sh meta tmp =
     after (or_rollback tmp (wrapped ''copy etcd: '' (copyDirIfExists sh etcd_data_dir (joinp tmp ''etcd''))))
    (after (or_rollback tmp (wrapped ''copy kubernetes: ''
              (copyDirIfExists sh kubernetes_dir (joinp tmp ''kubernetes''))))
    (after (or_rollback tmp (mkdir_all (joinp tmp ''kubelet'')))
    (after (for_each kubelet_state_files (\<lambda>f.
              or_rollback tmp (wrapped (''copy kubelet/'' @ f @ '': '')
                (copyFileIfExists sh (joinp kubelet_dir f) (joinp (joinp tmp ''kubelet'') f)))))
           (or_rollback tmp (wrapped ''write meta: '' (writeMeta tmp meta))))))"

definition backup_Create :: "shell \<Rightarrow> last_boot \<Rightarrow> unit io" where
  "backup_Create sh meta =
     (if deployment_id meta = '''' \<or> boot_id meta = ''''
      then raise (Text ''backup requires DeploymentID and BootID'')
      else after (mkdir_all backups_dir)
       (let final = joinp backups_dir (backup_Name meta)
        in seq (backup_Exists (backup_Name meta)) (\<lambda>exists.
          if exists then return ()
          else let tmp = add_suffix final ''.tmp''
            in after (wrapped (''clean stale '' @ path_text tmp @ '': '') (remove_all tmp))
              (after (mkdir_all tmp)
              (after (fill_snapshot sh meta tmp)
                (or_rollback tmp (wrapped (''rename '' @ path_text tmp @ '' -> '' @ path_text final @ '': '')
                  (rename tmp final))))))))"

definition ReadMeta :: "string \<Rightarrow> last_boot io" where
  "ReadMeta name =
     seq (wrapped (''read '' @ name @ '' meta: '') (read_file (joinp (joinp backups_dir name) meta_file_name)))
       (\<lambda>b. case unmarshal_last_boot b of
           Inl e \<Rightarrow> raise (Wrap (''parse '' @ name @ '' meta: '') e '''')
         | Inr meta \<Rightarrow> return meta)"

section \<open>Restoring\<close>

definition restoreDir :: "shell \<Rightarrow> path \<Rightarrow> path \<Rightarrow> unit io" where
  "restoreDir sh src dst =
     seq (attempt (stat src)) (\<lambda>r. case r of
         Inl e \<Rightarrow> if is_not_exist e
           then wrapped (''remove live '' @ path_text dst @ '': '') (remove_all dst)
           else raise e
       | Inr _ \<Rightarrow>
           after (mkdir_all (dirname dst))
           (let staged = add_suffix dst ''.restoring''
            in after (remove_all staged)
              (after (on_err (copyTree sh src staged) (\<lambda>e. after (ignore (remove_all staged)) (raise e)))
              (after (on_err (remove_all dst) (\<lambda>e. after (ignore (remove_all staged)) (raise e)))
                (wrapped (''rename '' @ path_text staged @ '' -> '' @ path_text dst @ '': '')
                  (rename staged dst))))))"

definition replaceFile :: "shell \<Rightarrow> path \<Rightarrow> path \<Rightarrow> unit io" where
  "replaceFile sh src dst =
     after (mkdir_all (dirname dst))
     (let staged = add_suffix dst ''.restoring''
      in after (on_err (remove_one staged) (\<lambda>e. if is_not_exist e then return () else raise e))
        (after (on_err (copyFile sh src staged) (\<lambda>e. after (ignore (remove_one staged)) (raise e)))
          (rename staged dst)))"

definition restore_kubelet_file :: "shell \<Rightarrow> path \<Rightarrow> string \<Rightarrow> unit io" where
  "restore_kubelet_file sh src f =
     seq (attempt (stat (joinp (joinp src ''kubelet'') f))) (\<lambda>r. case r of
         Inl e \<Rightarrow> if is_not_exist e
           then on_err (remove_one (joinp kubelet_dir f))
                  (\<lambda>e. if is_not_exist e then return () else raise (Wrap (''remove live '' @ f @ '': '') e ''''))
           else raise e
       | Inr _ \<Rightarrow> wrapped (''restore kubelet/'' @ f @ '': '')
                    (replaceFile sh (joinp (joinp src ''kubelet'') f) (joinp kubelet_dir f)))"

definition backup_Restore :: "shell \<Rightarrow> string \<Rightarrow> unit io" where
  "backup_Restore sh name =
     (let src = joinp backups_dir name
      in seq (wrapped (''stat backup '' @ name @ '': '') (stat src)) (\<lambda>_.
        after (wrapped ''restore etcd: '' (restoreDir sh (joinp src ''etcd'') etcd_data_dir))
       (after (wrapped ''restore kubernetes: '' (restoreDir sh (joinp src ''kubernetes'') kubernetes_dir))
       (after (mkdir_all kubelet_dir)
         (for_each kubelet_state_files (restore_kubelet_file sh src))))))"

section \<open>Choosing and pruning\<close>

definition listed :: "string \<times> bool \<Rightarrow> bool" where
  "listed = (\<lambda>(n, d). d \<and> \<not> (has_suffix n ''.tmp'' \<or> has_suffix n ''.restoring'') \<and>
     snd (snd (cut n CHR ''_'')))"

definition backup_List :: "string list io" where
  "backup_List =
     seq (attempt (read_dir backups_dir)) (\<lambda>r. case r of
         Inl e \<Rightarrow> if is_not_exist e then return [] else raise e
       | Inr entries \<Rightarrow> return (map fst (filter listed entries)))"

text \<open>sort.Slice: the insertion sort it uses for up to twelve elements.  The sorted front part is
  kept reversed; an element moves to the front as long as \<open>lt\<close> says so.\<close>

fun insert_back :: "('a \<Rightarrow> 'a \<Rightarrow> bool) \<Rightarrow> 'a \<Rightarrow> 'a list \<Rightarrow> 'a list" where
  "insert_back lt x [] = [x]"
| "insert_back lt x (y # ys) = (if lt x y then y # insert_back lt x ys else x # y # ys)"

definition sort_slice :: "('a \<Rightarrow> 'a \<Rightarrow> bool) \<Rightarrow> 'a list \<Rightarrow> 'a list" where
  "sort_slice lt xs = rev (foldl (\<lambda>ys x. insert_back lt x ys) [] xs)"

fun stamp_all :: "string list \<Rightarrow> (string \<times> int) list io" where
  "stamp_all [] = return []"
| "stamp_all (n # ns) =
     seq (stat (joinp backups_dir n)) (\<lambda>(_, t). seq (stamp_all ns) (\<lambda>r. return ((n, t) # r)))"

definition LatestForDeployment :: "string \<Rightarrow> string io" where
  "LatestForDeployment deploymentID =
     seq backup_List (\<lambda>names.
     seq (stamp_all (filter (\<lambda>n. has_prefix n (deploymentID @ ''_'')) names)) (\<lambda>candidates.
       if candidates = [] then return ''''
       else return (fst (hd (sort_slice (\<lambda>a b. snd b < snd a) candidates)))))"

text \<open>The same sort with the comparison of Prune, which looks the times up at each comparison and
  uses the result without looking at the error: a failed stat leaves a nil value.\<close>

definition newer :: "string \<Rightarrow> string \<Rightarrow> bool io" where
  "newer n m =
     seq (attempt (stat (joinp backups_dir n))) (\<lambda>ii.
     seq (attempt (stat (joinp backups_dir m))) (\<lambda>jj.
       case (ii, jj) of (Inr (_, s), Inr (_, t)) \<Rightarrow> return (t < s) | _ \<Rightarrow> panic))"

fun insert_newer :: "string \<Rightarrow> string list \<Rightarrow> string list io" where
  "insert_newer x [] = return [x]"
| "insert_newer x (y # ys) =
     seq (newer x y) (\<lambda>b. if b then seq (insert_newer x ys) (\<lambda>r. return (y # r)) else return (x # y # ys))"

fun sort_newest_onto :: "string list \<Rightarrow> string list \<Rightarrow> string list io" where
  "sort_newest_onto ys [] = return (rev ys)"
| "sort_newest_onto ys (x # xs) = seq (insert_newer x ys) (\<lambda>r. sort_newest_onto r xs)"

definition sort_newest :: "string list \<Rightarrow> string list io" where
  "sort_newest xs = sort_newest_onto [] xs"

definition remove_backup :: "string \<Rightarrow> unit io" where
  "remove_backup n = wrapped (''prune '' @ n @ '': '') (remove_all (joinp backups_dir n))"

type_synonym groups = "(string \<times> string list) list"

definition add_to_group :: "string \<Rightarrow> string \<Rightarrow> groups \<Rightarrow> groups" where
  "add_to_group d n gs =
     AList.update d ((case map_of gs d of None \<Rightarrow> [] | Some g \<Rightarrow> g) @ [n]) gs"

fun prune_unknown :: "string list \<Rightarrow> string list \<Rightarrow> groups \<Rightarrow> groups io" where
  "prune_unknown known [] gs = return gs"
| "prune_unknown known (n # ns) gs =
     (let deploy = fst (cut n CHR ''_'')
      in if deploy \<notin> set known then after (remove_backup n) (prune_unknown known ns gs)
         else prune_unknown known ns (add_to_group deploy n gs))"

definition prune_group :: "string list \<Rightarrow> unit io" where
  "prune_group g =
     (if length g \<le> 1 then return ()
      else seq (sort_newest g) (\<lambda>s. for_each (tl s) remove_backup))"

text \<open>The order in which Go ranges over a map is not fixed: the numbers \<open>picks\<close> choose it.\<close>

fun ranged :: "nat list \<Rightarrow> 'a list \<Rightarrow> 'a list" where
  "ranged (k # ks) (x # xs) =
     (let i = k mod Suc (length xs)
      in ((x # xs) ! i) # ranged ks (take i (x # xs) @ drop (Suc i) (x # xs)))"
| "ranged _ xs = xs"

definition backup_Prune :: "nat list \<Rightarrow> string list \<Rightarrow> unit io" where
  "backup_Prune picks known =
     seq backup_List (\<lambda>names.
     seq (prune_unknown known names []) (\<lambda>gs.
       for_each (ranged picks gs) (\<lambda>(_, g). prune_group g)))"

section \<open>The restore marker\<close>

definition RestoreRequested :: "bool io" where
  "RestoreRequested =
     seq (attempt (stat restore_marker)) (\<lambda>r. case r of
         Inr _ \<Rightarrow> return True
       | Inl e \<Rightarrow> if is_not_exist e then return False else raise e)"

definition ClearRestoreMarker :: "unit io" where
  "ClearRestoreMarker =
     on_err (remove_one restore_marker) (\<lambda>e. if is_not_exist e then return () else raise e)"

section \<open>The contract of cp\<close>

text \<open>What the manual of GNU cp documents and the code relies on.  A copy changes nothing outside
  the destination, whether it succeeds or not, keeps a well-formed file system so, and leaves the
  times of everything but the destination and the directory it appears in.  A recursive copy that
  succeeds onto a path without an entry has made there what is at the source.  A copy without the
  recursive flag succeeds only for a file, and a file has its contents then.\<close>

definition cp_contract :: "shell \<Rightarrow> bool" where
  "cp_contract sh \<longleftrightarrow>
     (\<forall>h fl s d f. let (r, g) = sh h (cp_call fl s d) f in
        same_outside (below d) f g \<and> keeps_wf f g \<and> same_times (insert (butlast d) (below d)) f g) \<and>
     (\<forall>h s d f r g. sh h (cp_call tree_flags s d) f = (r, g) \<longrightarrow> failure r = None \<longrightarrow>
        wf_files f \<longrightarrow> lookup f d = None \<longrightarrow> \<not> prefix s d \<longrightarrow> (\<forall>q. lookup g (d @ q) = lookup f (s @ q))) \<and>
     (\<forall>h s d f r g. sh h (cp_call file_flags s d) f = (r, g) \<longrightarrow> failure r = None \<longrightarrow>
        wf_files f \<longrightarrow> lookup f d \<noteq> Some Dir \<longrightarrow>
        (\<exists>c. lookup f s = Some (File c) \<and> lookup g d = Some (File c)))"

end
