(* ===== verification/Copies.thy ===== *)
theory Copies
imports Backup
begin

text \<open>
  What the copying functions of Backup do, from the contract of cp: the frame of each, and what is
  at the destination after a success.  At the end a concrete cp that meets the contract.
\<close>

section \<open>Frames\<close>

lemma runCp_guarantees:
  assumes "files_rel R" and "\<And>h f. R f (snd (sh h (cp_call fl s d) f))"
  shows "guarantees R (runCp sh s d fl)"
proof -
  note rules = files_rel.gu_rules [OF assms(1)] files_rel.gu_extern [OF assms(1)]
  show ?thesis
    unfolding runCp_def using assms(2)
    by (intro rules) (auto split: option.split intro!: rules)
qed

lemma cp_frames:
  assumes "cp_contract sh"
  shows "same_outside (below d) f (snd (sh h (cp_call fl s d) f))"
    "keeps_wf f (snd (sh h (cp_call fl s d) f))"
    "same_times (insert (butlast d) (below d)) f (snd (sh h (cp_call fl s d) f))"
  using assms unfolding cp_contract_def by (metis (mono_tags, lifting) case_prod_beta)+

lemma outside_runCp [guar]:
  assumes "cp_contract sh" "below d \<subseteq> A"
  shows "guarantees (same_outside A) (runCp sh s d fl)"
  by (rule runCp_guarantees [OF outside.files_rel_axioms])
    (rule same_outside_mono [OF cp_frames(1) [OF assms(1)] assms(2)])

lemma wf_runCp [guar]: "cp_contract sh \<Longrightarrow> guarantees keeps_wf (runCp sh s d fl)"
  by (rule runCp_guarantees [OF wfr.files_rel_axioms]) (rule cp_frames(2))

lemma times_runCp [guar]:
  assumes "cp_contract sh" "insert (butlast d) (below d) \<subseteq> A"
  shows "guarantees (same_times A) (runCp sh s d fl)"
  by (rule runCp_guarantees [OF times.files_rel_axioms])
    (use cp_frames(3) [OF assms(1)] assms(2) in \<open>unfold same_times_def, blast\<close>)

lemma outside_copies [guar]:
  assumes "cp_contract sh" "below d \<subseteq> A"
  shows "guarantees (same_outside A) (copyTree sh s d)" "guarantees (same_outside A) (copyFile sh s d)"
  using assms by (auto simp: copyTree_def copyFile_def intro: guar)

lemma wf_copies [guar]:
  assumes "cp_contract sh"
  shows "guarantees keeps_wf (copyTree sh s d)" "guarantees keeps_wf (copyFile sh s d)"
  using assms by (auto simp: copyTree_def copyFile_def intro: guar)

lemma times_copies [guar]:
  assumes "cp_contract sh" "insert (butlast d) (below d) \<subseteq> A"
  shows "guarantees (same_times A) (copyTree sh s d)" "guarantees (same_times A) (copyFile sh s d)"
  unfolding copyTree_def copyFile_def by (rule times_runCp [OF assms])+

lemma outside_copyDir [guar]:
  assumes "cp_contract sh" "below d \<subseteq> A"
  shows "guarantees (same_outside A) (copyDirIfExists sh s d)"
  unfolding copyDirIfExists_def using assms
  by (intro guar) (auto split: sum.split intro!: guar)

lemma wf_copyDir [guar]: "cp_contract sh \<Longrightarrow> guarantees keeps_wf (copyDirIfExists sh s d)"
  unfolding copyDirIfExists_def
  by (intro guar) (auto split: sum.split intro!: guar)

lemma outside_copyFileIf [guar]:
  assumes "cp_contract sh" "below d \<subseteq> A" "above (dirname d) \<subseteq> A"
  shows "guarantees (same_outside A) (copyFileIfExists sh s d)"
  unfolding copyFileIfExists_def using assms
  by (intro guar) (auto split: sum.split intro!: guar)

lemma wf_copyFileIf [guar]: "cp_contract sh \<Longrightarrow> guarantees keeps_wf (copyFileIfExists sh s d)"
  unfolding copyFileIfExists_def
  by (intro guar) (auto split: sum.split intro!: guar)

section \<open>Success\<close>

lemma runCp_Ok:
  "runCp sh s d fl w = (Ok (), v) \<Longrightarrow> \<exists>h r. sh h (cp_call fl s d) (fs w) = (r, fs v) \<and> failure r = None"
  by (auto simp: runCp_def run_simps split: option.splits dest!: extern_Ok)

lemma cp_tree:
  "\<lbrakk>cp_contract sh; sh h (cp_call tree_flags s d) f = (r, g); failure r = None; wf_files f; lookup f d = None; \<not> prefix s d\<rbrakk> \<Longrightarrow>
     lookup g (d @ q) = lookup f (s @ q)"
  unfolding cp_contract_def by blast

lemma cp_file:
  "\<lbrakk>cp_contract sh; sh h (cp_call file_flags s d) f = (r, g); failure r = None; wf_files f; lookup f d \<noteq> Some Dir\<rbrakk> \<Longrightarrow>
     \<exists>c. lookup f s = Some (File c) \<and> lookup g d = Some (File c)"
  unfolding cp_contract_def by blast

lemma copyTree_Ok:
  assumes "cp_contract sh" "copyTree sh s d w = (Ok (), v)"
    and "wf_files (fs w)" "look w d = None" "\<not> prefix s d"
  shows "look v (d @ q) = look w (s @ q)"
  using runCp_Ok [OF assms(2) [unfolded copyTree_def]] cp_tree [OF assms(1) _ _ assms(3-5)] by blast

lemma copyFile_Ok:
  assumes "cp_contract sh" "copyFile sh s d w = (Ok (), v)" "wf_files (fs w)" "look w d \<noteq> Some Dir"
  shows "\<exists>c. look w s = Some (File c) \<and> look v d = Some (File c)"
  using runCp_Ok [OF assms(2) [unfolded copyFile_def]] cp_file [OF assms(1) _ _ assms(3,4)] by blast

lemma copyDirIfExists_Ok:
  assumes "cp_contract sh" and run: "copyDirIfExists sh s d w = (Ok (), v)"
    and wf: "wf_files (fs w)" "look w d = None" "\<not> prefix s d"
  shows "look v (d @ q) = look w (s @ q)"
proof -
  consider e u where "stat s w = (Err e, u)" "is_not_exist e" "v = u"
    | n u where "stat s w = (Ok n, u)" "copyTree sh s d u = (Ok (), v)"
    using run by (auto simp: copyDirIfExists_def run_simps split: if_splits)
  then show ?thesis
  proof cases
    case 1
    then have "fs v = fs w" "look w s = None"
      using stat_Err by blast+
    then show ?thesis
      using wf wf_below_absent [OF wf(1), of s "s @ q"] wf_below_absent [OF wf(1), of d "d @ q"] by simp
  next
    case 2
    then have "fs u = fs w"
      using stat_Ok by (cases n) blast
    then show ?thesis
      using copyTree_Ok [OF assms(1) 2(2)] wf by simp
  qed
qed

lemma missing_dirs_present:
  assumes "wf_files f" "is_dir f p"
  shows "missing_dirs f p = []"
proof -
  have "lookup f q \<noteq> None" if "prefix q p" for q
    using that assms wf_ancestor [OF assms(1), of p Dir q] by (cases "q = p") (auto simp: is_dir_def strict_prefix_def)
  then show ?thesis
    by (auto simp: missing_dirs_def filter_empty_conv ancestors_prefix)
qed

lemma mkdir_all_present:
  assumes "mkdir_all p w = (Ok (), v)" "wf_files (fs w)" "is_dir (fs w) p"
  shows "fs v = fs w"
  using mkdir_all_Ok [OF assms(1)] missing_dirs_present [OF assms(2,3)] by (simp add: make_dirs_def)

lemma copyFileIfExists_Ok:
  assumes "cp_contract sh" and run: "copyFileIfExists sh s d w = (Ok (), v)"
    and wf: "wf_files (fs w)" and "is_dir (fs w) (dirname d)" and d: "look w d = None"
  shows "look v d = look w s" "same_outside (below d) (fs w) (fs v)" "look w s \<noteq> Some Dir"
proof -
  consider e u where "stat s w = (Err e, u)" "is_not_exist e" "v = u"
    | n u x where "stat s w = (Ok n, u)" "mkdir_all (dirname d) u = (Ok (), x)" "copyFile sh s d x = (Ok (), v)"
    using run by (auto simp: copyFileIfExists_def run_simps split: if_splits)
  then have "look v d = look w s \<and> same_outside (below d) (fs w) (fs v) \<and> look w s \<noteq> Some Dir"
  proof cases
    case 1
    then have "fs v = fs w" "look w s = None"
      using stat_Err by blast+
    with d show ?thesis
      by (simp add: outside.rel_refl)
  next
    case 2
    then have "fs u = fs w"
      using stat_Ok by (cases n) blast
    with 2 assms(4) wf have x: "fs x = fs w"
      using mkdir_all_present by metis
    have "guarantees (same_outside (below d)) (copyFile sh s d)"
      by (rule outside_copies) (simp_all add: assms(1))
    with 2(3) x have "same_outside (below d) (fs w) (fs v)"
      by (metis guaranteesD)
    then show ?thesis
      using copyFile_Ok [OF assms(1) 2(3)] x wf d by auto
  qed
  then show "look v d = look w s" "same_outside (below d) (fs w) (fs v)" "look w s \<noteq> Some Dir"
    by simp_all
qed

section \<open>A cp that meets the contract\<close>

definition copied :: "path \<Rightarrow> path \<Rightarrow> files \<Rightarrow> files" where
  "copied s d f =
     f\<lparr>ents := ents f @ map (\<lambda>(q, n). (d @ drop (length s) q, n)) (filter (\<lambda>(q, _). prefix s q) (ents f)),
       stamps := map (\<lambda>(q, t). (d @ drop (length s) q, t)) (filter (\<lambda>(q, _). prefix s q) (stamps f)) @ stamps f\<rparr>"

definition cp_files :: "string list \<Rightarrow> path \<Rightarrow> path \<Rightarrow> files \<Rightarrow> files option" where
  "cp_files fl s d f =
     (if \<not> is_dir f (butlast d) \<or> d = [] \<or> prefix s d \<or> lookup f s = None then None
      else if fl = tree_flags then (if lookup f d = None then Some (copied s d f) else None)
      else if lookup f d = Some Dir then None
      else (case lookup f s of Some (File c) \<Rightarrow> Some (set_node d (File c) (mtime f s) f) | _ \<Rightarrow> None))"

fun call_flags :: "call \<Rightarrow> (string list \<times> path \<times> path) option" where
  "call_flags [Path s, Path d] = Some ([], s, d)"
| "call_flags (Word x # r) = map_option (apfst ((#) x)) (call_flags r)"
| "call_flags _ = None"

text \<open>Every other program succeeds, prints \<open>out\<close> and changes no file.\<close>

definition sample_shell :: "string \<Rightarrow> shell" where
  "sample_shell out h c f =
     (if c \<noteq> [] \<and> hd c = Word ''cp'' then
        (case call_flags (tl c) of
           Some (fl, s, d) \<Rightarrow> (case cp_files fl s d f of
               Some g \<Rightarrow> (\<lparr>failure = None, stdout = '''', stderr = '''', conditions = []\<rparr>, g)
             | None \<Rightarrow> (\<lparr>failure = Some (Text ''exit status 1''), stdout = '''', stderr = ''cp: failed'', conditions = []\<rparr>, f))
         | None \<Rightarrow> (\<lparr>failure = Some (Text ''exit status 1''), stdout = '''', stderr = ''usage'', conditions = []\<rparr>, f))
      else (\<lparr>failure = None, stdout = out, stderr = '''', conditions = []\<rparr>, f))"

lemma call_flags_cp: "call_flags (tl (cp_call fl s d)) = Some (fl, s, d)"
proof -
  have "call_flags (map Word fl @ [Path s, Path d]) = Some (fl, s, d)"
    by (induction fl) simp_all
  then show ?thesis
    by (simp add: cp_call_def)
qed

lemma sample_shell_cp:
  "sample_shell out h (cp_call fl s d) f =
     (case cp_files fl s d f of
        Some g \<Rightarrow> (\<lparr>failure = None, stdout = '''', stderr = '''', conditions = []\<rparr>, g)
      | None \<Rightarrow> (\<lparr>failure = Some (Text ''exit status 1''), stdout = '''', stderr = ''cp: failed'', conditions = []\<rparr>, f))"
  using call_flags_cp [of fl s d] by (simp add: sample_shell_def cp_call_def)

lemma map_of_copied:
  "map_of (map (\<lambda>(q, n). (d @ drop (length s) q, n)) (filter (\<lambda>(q, _). prefix s q) xs)) q =
     (if prefix d q then map_of xs (s @ drop (length d) q) else None)"
proof (induction xs)
  case (Cons x xs)
  obtain r n where x: "x = (r, n)"
    by (cases x)
  show ?case
  proof (cases "prefix s r")
    case True
    then obtain t where "r = s @ t"
      by (auto simp: prefix_def)
    with Cons show ?thesis
      by (auto simp: x prefix_def)
  next
    case False
    with Cons show ?thesis
      by (auto simp: x)
  qed
qed simp

lemma lookup_copied:
  "lookup (copied s d f) q =
     (case lookup f q of Some n \<Rightarrow> Some n
      | None \<Rightarrow> if prefix d q then lookup f (s @ drop (length d) q) else None)"
  using map_of_copied [of d s "ents f" q]
  by (simp add: lookup_def copied_def map_add_def split: option.split)

lemma mtime_copied: "\<not> prefix d q \<Longrightarrow> mtime (copied s d f) q = mtime f q"
  using map_of_copied [of d s "stamps f" q]
  by (simp add: mtime_def copied_def map_add_def)

lemma distinct_copied:
  assumes wf: "wf_files f" and none: "\<And>r. lookup f (d @ r) = None"
  shows "distinct (map fst (ents (copied s d f)))"
proof -
  have inj: "inj_on (\<lambda>q. d @ drop (length s) q) {q. prefix s q}"
    by (auto simp: inj_on_def prefix_def)
  have "map fst (map (\<lambda>(q, n). (d @ drop (length s) q, n)) (filter (\<lambda>(q, _). prefix s q) (ents f)))
      = map (\<lambda>q. d @ drop (length s) q) (map fst (filter (\<lambda>(q, _). prefix s q) (ents f)))"
    by (simp add: split_beta comp_def)
  moreover have "distinct (map fst (filter (\<lambda>(q, _). prefix s q) (ents f)))"
    using wf_elim(1) [OF wf] by (rule distinct_map_filter)
  moreover have "inj_on (\<lambda>q. d @ drop (length s) q) (set (map fst (filter (\<lambda>(q, _). prefix s q) (ents f))))"
    by (rule inj_on_subset [OF inj]) auto
  ultimately have "distinct (map fst (map (\<lambda>(q, n). (d @ drop (length s) q, n)) (filter (\<lambda>(q, _). prefix s q) (ents f))))"
    by (simp only: distinct_map)
  moreover have "d @ r \<notin> set (map fst (ents f))" for r
    using none [of r] by (simp add: lookup_def map_of_eq_None_iff)
  ultimately show ?thesis
    using wf_elim(1) [OF wf] by (auto simp: copied_def) (metis fst_conv image_eqI)
qed

lemma wf_copied:
  assumes wf: "wf_files f" and d: "lookup f d = None" "is_dir f (butlast d)"
  shows "wf_files (copied s d f)"
proof (rule wf_intro)
  have "d \<noteq> []"
    using d wf_elim(2) [OF wf] by auto
  have none: "lookup f (d @ r) = None" for r
    by (rule wf_below_absent [OF wf d(1)]) simp
  show "lookup (copied s d f) [] = Some Dir"
    using wf_elim(2) [OF wf] by (simp add: lookup_copied)
  show "distinct (map fst (ents (copied s d f)))"
    using wf none by (rule distinct_copied)
  fix q x m
  assume q: "lookup (copied s d f) (q @ [x]) = Some m"
  show "lookup (copied s d f) q = Some Dir"
  proof (cases "lookup f (q @ [x])")
    case None
    with q have p: "prefix d (q @ [x])" and m: "lookup f (s @ drop (length d) (q @ [x])) = Some m"
      by (auto simp: lookup_copied split: if_splits)
    show ?thesis
    proof (cases "prefix d q")
      case True
      then have "lookup f ((s @ drop (length d) q) @ [x]) = Some m"
        using m by (auto dest: prefix_length_le)
      then have "lookup f (s @ drop (length d) q) = Some Dir"
        by (rule wf_elim(3) [OF wf])
      moreover have "lookup f q = None"
        using True none by (auto simp: prefix_def)
      ultimately show ?thesis
        using True by (simp add: lookup_copied)
    next
      case False
      with p have "d = q @ [x]"
        by simp
      with d(2) show ?thesis
        by (simp add: lookup_copied is_dir_def)
    qed
  qed (use wf_elim(3) [OF wf, of q x] in \<open>auto simp: lookup_copied\<close>)
qed

lemma cp_files_frames:
  assumes "cp_files fl s d f = Some g"
  shows "same_outside (below d) f g" "keeps_wf f g" "same_times (insert (butlast d) (below d)) f g"
proof -
  show "same_outside (below d) f g"
    using assms by (auto simp: cp_files_def same_outside_def lookup_copied
        split: if_splits option.splits node.splits)
  show "keeps_wf f g"
    using assms by (auto simp: cp_files_def keeps_wf_def split: if_splits option.splits node.splits
        intro!: wf_copied wf_set_node)
  show "same_times (insert (butlast d) (below d)) f g"
    using assms by (auto simp: cp_files_def same_times_def mtime_set_node mtime_copied
        split: if_splits option.splits node.splits)
qed

lemma cp_files_tree:
  assumes "cp_files tree_flags s d f = Some g" "wf_files f" "lookup f d = None"
  shows "lookup g (d @ q) = lookup f (s @ q)"
  using assms wf_below_absent [OF assms(2,3), of "d @ q"]
  by (auto simp: cp_files_def lookup_copied split: if_splits)

lemma cp_files_file:
  assumes "cp_files file_flags s d f = Some g"
  shows "\<exists>c. lookup f s = Some (File c) \<and> lookup g d = Some (File c)"
proof -
  have "file_flags \<noteq> tree_flags"
    by (simp add: file_flags_def tree_flags_def)
  with assms show ?thesis
    by (auto simp: cp_files_def split: if_splits option.splits node.splits)
qed

lemma cp_contract_sample: "cp_contract (sample_shell out)"
  unfolding cp_contract_def Let_def
proof (intro conjI allI impI)
  fix h fl s d f
  show "case sample_shell out h (cp_call fl s d) f of (r, g) \<Rightarrow>
      same_outside (below d) f g \<and> keeps_wf f g \<and> same_times (insert (butlast d) (below d)) f g"
    using cp_files_frames [of fl s d f]
    by (auto simp: sample_shell_cp outside.rel_refl wfr.rel_refl times.rel_refl split: option.split)
next
  fix h s d f r g q
  assume "sample_shell out h (cp_call tree_flags s d) f = (r, g)" "failure r = None" "wf_files f" "lookup f d = None"
  then show "lookup g (d @ q) = lookup f (s @ q)"
    using cp_files_tree [of s d f g q] by (auto simp: sample_shell_cp split: option.splits)
next
  fix h s d f r g
  assume "sample_shell out h (cp_call file_flags s d) f = (r, g)" "failure r = None"
  then show "\<exists>c. lookup f s = Some (File c) \<and> lookup g d = Some (File c)"
    using cp_files_file [of s d f g] by (auto simp: sample_shell_cp split: option.splits)
qed

end
