(* ===== verification/Backup_Snapshot.thy ===== *)
theory Backup_Snapshot
imports Copies
begin

text \<open>
  Create takes a snapshot that is there in full or not at all, at every failure and crash, and
  never changes what it copies.
\<close>

section \<open>What a snapshot is\<close>

text \<open>The directory \<open>d\<close> of \<open>g\<close> holds the snapshot of the live trees of \<open>f\<close>.\<close>

definition holds_snapshot :: "files \<Rightarrow> last_boot \<Rightarrow> files \<Rightarrow> path \<Rightarrow> bool" where
  "holds_snapshot f meta g d \<longleftrightarrow> lookup g d = Some Dir \<and>
     (\<forall>q. lookup g (d @ ''etcd'' # q) = lookup f (etcd_data_dir @ q)) \<and>
     (\<forall>q. lookup g (d @ ''kubernetes'' # q) = lookup f (kubernetes_dir @ q)) \<and>
     lookup g (d @ [''kubelet'']) = Some Dir \<and>
     (\<forall>x \<in> set kubelet_state_files. lookup g (d @ [''kubelet'', x]) = lookup f (kubelet_dir @ [x])) \<and>
     lookup g (d @ [meta_file_name]) = Some (File (marshal_last_boot meta))"

definition live_trees :: "path set" where
  "live_trees = below etcd_data_dir \<union> below kubernetes_dir \<union> below kubelet_dir"

lemma holds_snapshot_source:
  assumes "holds_snapshot f meta g d" "same_outside A h f" "A \<inter> live_trees = {}"
  shows "holds_snapshot h meta g d"
proof -
  have "lookup f q = lookup h q" if "q \<in> live_trees" for q
    using assms(2,3) that by (auto simp: same_outside_def)
  with assms(1) show ?thesis
    by (simp add: holds_snapshot_def live_trees_def)
qed

section \<open>Frames\<close>

lemma simple_parts [simp]:
  "simple_name ''etcd''" "simple_name ''kubernetes''" "simple_name ''kubelet''" "simple_name meta_file_name"
  by (simp_all add: simple_name_def meta_file_name_def)

lemma simple_state_files [simp]: "x \<in> set kubelet_state_files \<Longrightarrow> simple_name x"
  by (auto simp: kubelet_state_files_def simple_name_def)

definition create_zone :: "path \<Rightarrow> path set" where
  "create_zone tmp = above backups_dir \<union> below tmp"

lemma zone_below_tmp: "prefix tmp q \<Longrightarrow> below q \<subseteq> create_zone tmp"
  by (auto simp: create_zone_def intro: prefix_order.trans)

lemma zone_above_tmp: "tmp = backups_dir @ [t] \<Longrightarrow> prefix tmp q \<Longrightarrow> above q \<subseteq> create_zone tmp"
  unfolding create_zone_def
  by (auto dest: prefix_same_cases simp: prefix_snoc)

lemma zone_live: "tmp = backups_dir @ [t] \<Longrightarrow> create_zone tmp \<inter> live_trees = {}"
  by (auto simp: create_zone_def live_trees_def paths_defs prefix_def Cons_eq_append_conv)

lemma outside_rollback [guar]: "below tmp \<subseteq> A \<Longrightarrow> guarantees (same_outside A) (rollbackTmp tmp c)"
  unfolding rollbackTmp_def by (intro guar) (auto split: sum.split intro!: guar)

lemma wf_rollback [guar]: "tmp \<noteq> [] \<Longrightarrow> guarantees keeps_wf (rollbackTmp tmp c)"
  unfolding rollbackTmp_def by (intro guar) (auto split: sum.split intro!: guar)

lemma outside_or_rollback [guar]:
  "\<lbrakk>below tmp \<subseteq> A; guarantees (same_outside A) m\<rbrakk> \<Longrightarrow> guarantees (same_outside A) (or_rollback tmp m)"
  unfolding or_rollback_def by (intro guar)

lemma wf_or_rollback [guar]:
  "\<lbrakk>tmp \<noteq> []; guarantees keeps_wf m\<rbrakk> \<Longrightarrow> guarantees keeps_wf (or_rollback tmp m)"
  unfolding or_rollback_def by (intro guar)

lemma outside_fill:
  assumes cp: "cp_contract sh" and tmp: "tmp = backups_dir @ [t]"
  shows "guarantees (same_outside (create_zone tmp)) (fill_snapshot sh meta tmp)"
proof -
  have b: "below (tmp @ q) \<subseteq> create_zone tmp" "above (tmp @ q) \<subseteq> create_zone tmp" for q
    using zone_below_tmp zone_above_tmp [OF tmp] by simp_all
  have m: "tmp @ [meta_file_name] \<in> create_zone tmp"
    by (simp add: create_zone_def)
  have t: "below tmp \<subseteq> create_zone tmp"
    by (simp add: create_zone_def)
  note bs = b [of "[x]" for x] b [of "[x, y]" for x y]
  show ?thesis
    unfolding fill_snapshot_def writeMeta_def
    by (intro guar outside.gu_for_each) (use cp bs m t in \<open>auto simp: dirname_def butlast_append\<close>)
qed

lemma wf_fill_snapshot:
  assumes cp: "cp_contract sh" and tmp: "tmp \<noteq> []"
  shows "guarantees keeps_wf (fill_snapshot sh meta tmp)"
  unfolding fill_snapshot_def writeMeta_def
  by (intro guar wfr.gu_for_each) (use cp tmp in auto)

section \<open>Filling the temporary directory\<close>

lemma rollback_not_Ok: "rollbackTmp tmp c w = (Ok (), v) \<longleftrightarrow> False"
  by (auto simp: rollbackTmp_def run_simps split: sum.splits)

lemma or_rollback_Ok [run_simps]: "or_rollback tmp m w = (Ok (), v) \<longleftrightarrow> m w = (Ok (), v)"
  by (simp add: or_rollback_def run_simps rollback_not_Ok)

lemma mkdir_all_one:
  assumes run: "mkdir_all (p @ [n]) w = (Ok (), v)" and wf: "wf_files (fs w)" and p: "look w p = Some Dir"
  shows "look v (p @ [n]) = Some Dir" "same_outside {p @ [n]} (fs w) (fs v)"
proof -
  obtain t where v: "fs v = make_dirs (missing_dirs (fs w) (p @ [n])) t (fs w)"
    and nf: "\<not> is_file (fs w) (p @ [n])"
    using mkdir_all_Ok [OF run] by blast
  have "look w q \<noteq> None" if "prefix q p" for q
    using that wf_ancestor [OF wf p, of q] p by (cases "q = p") (auto simp: strict_prefix_def)
  then have m: "q \<in> set (missing_dirs (fs w) (p @ [n])) \<longleftrightarrow> q = p @ [n] \<and> look w q = None" for q
    unfolding missing_dirs_iff prefix_snoc by blast
  show "same_outside {p @ [n]} (fs w) (fs v)"
    by (simp add: same_outside_def v m)
  show "look v (p @ [n]) = Some Dir"
    using nf by (cases "look w (p @ [n])"; cases "the (look w (p @ [n]))") (auto simp: v m is_file_iff)
qed

lemma copy_files_Ok:
  assumes cp: "cp_contract sh"
    and "for_each xs (\<lambda>f. or_rollback tmp (wrapped (g f)
          (copyFileIfExists sh (joinp src f) (joinp k f)))) w = (Ok (), v)"
    and "wf_files (fs w)" "look w k = Some Dir" "\<And>x. x \<in> set xs \<Longrightarrow> look w (k @ [x]) = None"
    and "distinct xs" "\<And>x. x \<in> set xs \<Longrightarrow> simple_name x" "\<not> prefix k src" "\<not> prefix src k"
  shows "(\<forall>x \<in> set xs. look v (k @ [x]) = look w (src @ [x])) \<and>
    same_outside (below k - {k}) (fs w) (fs v) \<and>
    (\<forall>y r. y \<notin> set xs \<longrightarrow> look v (k @ y # r) = look w (k @ y # r))"
  using assms(2-7)
proof (induction xs arbitrary: w)
  case (Cons x xs)
  have sx: "joinp k x = k @ [x]" "joinp src x = src @ [x]"
    using Cons.prems(6) by simp_all
  from Cons.prems(1) obtain u where one: "copyFileIfExists sh (src @ [x]) (k @ [x]) w = (Ok (), u)"
    and rest: "for_each xs (\<lambda>f. or_rollback tmp (wrapped (g f)
          (copyFileIfExists sh (joinp src f) (joinp k f)))) u = (Ok (), v)"
    by (auto simp: run_simps sx simp del: for_each.simps)
  have "is_dir (fs w) (dirname (k @ [x]))" "look w (k @ [x]) = None"
    using Cons.prems(3,4) by (simp_all add: is_dir_def)
  note u = copyFileIfExists_Ok [OF cp one Cons.prems(2) this]
  have wfu: "wf_files (fs u)"
    using guaranteesD [OF wf_copyFileIf [OF cp] one] Cons.prems(2) by (simp add: keeps_wf_def)
  have ku: "look u k = Some Dir"
    using u(2) Cons.prems(3) by (simp add: same_outside_def)
  have other: "look u (k @ y # r) = look w (k @ y # r)" if "y \<noteq> x" for y r
    using u(2) that by (simp add: same_outside_def)
  have "look u (k @ [y]) = None" if "y \<in> set xs" for y
    using other [of y "[]"] that Cons.prems(4,5) by auto
  note ih = Cons.IH [OF rest wfu ku this]
  have src: "look u (src @ [y]) = look w (src @ [y])" for y
  proof (rule same_outsideD [OF u(2)])
    show "src @ [y] \<notin> below (k @ [x])"
      using assms(8,9) by (auto simp: prefix_snoc dest: append_prefixD)
  qed
  from ih Cons.prems have
    v: "\<forall>y \<in> set xs. look v (k @ [y]) = look u (src @ [y])"
      "same_outside (below k - {k}) (fs u) (fs v)"
      "\<forall>y r. y \<notin> set xs \<longrightarrow> look v (k @ y # r) = look u (k @ y # r)"
    by auto
  have "look v (k @ [x]) = look w (src @ [x])"
    using v(3) u(1) Cons.prems(5) by simp
  moreover have "same_outside (below k - {k}) (fs w) (fs v)"
  proof (rule outside.rel_trans [OF _ v(2)])
    show "same_outside (below k - {k}) (fs w) (fs u)"
      by (rule same_outside_mono [OF u(2)]) (auto dest: append_prefixD)
  qed
  ultimately show ?case
    using v(1,3) src other by auto
qed (simp add: run_simps outside.rel_refl del: for_each.simps)

text \<open>The copies of the two trees, and of the files of the kubelet.\<close>

lemma fill_trees_Ok:
  assumes cp: "cp_contract sh" and tmp: "tmp = backups_dir @ [t]" and wf: "wf_files (fs w)"
    and e: "copyDirIfExists sh etcd_data_dir (tmp @ [''etcd'']) w = (Ok (), u)"
    and k: "copyDirIfExists sh kubernetes_dir (tmp @ [''kubernetes'']) u = (Ok (), v)"
    and new: "\<And>x r. look w (tmp @ x # r) = None"
  shows "wf_files (fs v)" "same_outside (below (tmp @ [''etcd'']) \<union> below (tmp @ [''kubernetes''])) (fs w) (fs v)"
    "look v (tmp @ ''etcd'' # q) = look w (etcd_data_dir @ q)" "look v (tmp @ ''kubernetes'' # q) = look w (kubernetes_dir @ q)"
proof -
  have frame: "guarantees (same_outside (below (tmp @ [x]))) (copyDirIfExists sh s (tmp @ [x]))"
    and wfc: "guarantees keeps_wf (copyDirIfExists sh s y)" for s x y
    by (intro guar cp; simp)+
  note f = guaranteesD [OF frame e] guaranteesD [OF frame k]
  have wfu: "wf_files (fs u)"
    using guaranteesD [OF wfc e] wf by (simp add: keeps_wf_def)
  then show "wf_files (fs v)"
    using guaranteesD [OF wfc k] by (simp add: keeps_wf_def)
  show "same_outside (below (tmp @ [''etcd'']) \<union> below (tmp @ [''kubernetes''])) (fs w) (fs v)"
    using f by (simp add: same_outside_def)
  have apart: "\<not> prefix etcd_data_dir (tmp @ [x])" "\<not> prefix kubernetes_dir (tmp @ [x])" "\<not> prefix (tmp @ [x]) (kubernetes_dir @ q)" for x
    by (simp_all add: tmp paths_defs)
  have "look u (tmp @ ''etcd'' # q) = look w (etcd_data_dir @ q)"
    using copyDirIfExists_Ok [OF cp e wf _ apart(1), of q] new by simp
  then show "look v (tmp @ ''etcd'' # q) = look w (etcd_data_dir @ q)"
    using f(2) by (simp add: same_outside_def)
  have "look u (tmp @ ''kubernetes'' # r) = None" for r
    using f(1) new by (simp add: same_outside_def)
  moreover have "look u (kubernetes_dir @ q) = look w (kubernetes_dir @ q)"
    using f(1) apart by (simp add: same_outside_def)
  ultimately show "look v (tmp @ ''kubernetes'' # q) = look w (kubernetes_dir @ q)"
    using copyDirIfExists_Ok [OF cp k wfu _ apart(2), of q] by simp
qed

lemma fill_kubelet_Ok:
  assumes cp: "cp_contract sh" and tmp: "tmp = backups_dir @ [t]" and wf: "wf_files (fs w)"
    and m: "mkdir_all (tmp @ [''kubelet'']) w = (Ok (), u)"
    and c: "for_each kubelet_state_files (\<lambda>f. or_rollback tmp (wrapped (g f)
        (copyFileIfExists sh (joinp kubelet_dir f) (joinp (tmp @ [''kubelet'']) f)))) u = (Ok (), v)"
    and d: "look w tmp = Some Dir" and new: "\<And>r. look w (tmp @ ''kubelet'' # r) = None"
  shows "same_outside (below (tmp @ [''kubelet''])) (fs w) (fs v)" "look v (tmp @ [''kubelet'']) = Some Dir"
    "x \<in> set kubelet_state_files \<Longrightarrow> look v (tmp @ [''kubelet'', x]) = look w (kubelet_dir @ [x])"
proof -
  let ?k = "tmp @ [''kubelet'']"
  note made = mkdir_all_one [OF m wf d]
  have wfu: "wf_files (fs u)"
    using guaranteesD [OF wf_mkdir_all m] wf by (simp add: keeps_wf_def)
  have new': "look u (?k @ [y]) = None" for y
    using made(2) new [of "[y]"] by (simp add: same_outside_def)
  have apart: "\<not> prefix ?k kubelet_dir" "\<not> prefix kubelet_dir ?k" "kubelet_dir @ [y] \<noteq> ?k" for y
    by (simp_all add: tmp paths_defs)
  have "distinct kubelet_state_files"
    by (simp add: kubelet_state_files_def)
  from copy_files_Ok [OF cp c wfu made(1) new' this simple_state_files apart(1,2)]
  have files: "\<forall>y \<in> set kubelet_state_files. look v (?k @ [y]) = look u (kubelet_dir @ [y])"
    and f: "same_outside (below ?k - {?k}) (fs u) (fs v)"
    by blast+
  show "same_outside (below ?k) (fs w) (fs v)"
    using made(2) f by (auto simp: same_outside_def)
  show "look v ?k = Some Dir"
    using made(1) f by (simp add: same_outside_def)
  show "look v (tmp @ [''kubelet'', x]) = look w (kubelet_dir @ [x])" if "x \<in> set kubelet_state_files"
    using files that made(2) apart(3) by (simp add: same_outside_def)
qed

lemma fill_snapshot_Ok:
  assumes cp: "cp_contract sh" and tmp: "tmp = backups_dir @ [t]"
    and run: "fill_snapshot sh meta tmp w = (Ok (), v)" and wf: "wf_files (fs w)"
    and d: "look w tmp = Some Dir" and new: "\<And>x r. look w (tmp @ x # r) = None"
  shows "holds_snapshot (fs w) meta (fs v) tmp"
proof -
  from run obtain w1 w2 w3 w4 where
    e: "copyDirIfExists sh etcd_data_dir (tmp @ [''etcd'']) w = (Ok (), w1)" and
    k: "copyDirIfExists sh kubernetes_dir (tmp @ [''kubernetes'']) w1 = (Ok (), w2)" and
    m: "mkdir_all (tmp @ [''kubelet'']) w2 = (Ok (), w3)" and
    c: "for_each kubelet_state_files (\<lambda>f.
              or_rollback tmp (wrapped (''copy kubelet/'' @ f @ '': '')
                (copyFileIfExists sh (joinp kubelet_dir f) (joinp (tmp @ [''kubelet'']) f)))) w3 = (Ok (), w4)" and
    j: "write_file (tmp @ [meta_file_name]) (marshal_last_boot meta) w4 = (Ok (), v)"
    unfolding fill_snapshot_def writeMeta_def by (auto simp: run_simps)
  note t = fill_trees_Ok [OF cp tmp wf e k new]
  have d2: "look w2 tmp = Some Dir" and new2: "look w2 (tmp @ ''kubelet'' # r) = None" for r
    using t(2) d new by (simp_all add: same_outside_def)
  note l = fill_kubelet_Ok [OF cp tmp t(1) m c d2 new2]
  have v: "look v q = (if q = tmp @ [meta_file_name] then Some (File (marshal_last_boot meta)) else look w4 q)" for q
    using write_file_Ok [OF j] by auto
  have names: "meta_file_name \<noteq> ''etcd''" "meta_file_name \<noteq> ''kubernetes''" "meta_file_name \<noteq> ''kubelet''"
    by (simp_all add: meta_file_name_def)
  have keep: "look w4 (tmp @ x # r) = look w2 (tmp @ x # r)" "look w4 tmp = look w2 tmp" if "x \<noteq> ''kubelet''" for x r
    using l(1) that by (simp_all add: same_outside_def)
  have live: "look w2 (kubelet_dir @ [x]) = look w (kubelet_dir @ [x])" for x
    using t(2) by (simp add: same_outside_def tmp paths_defs)
  show ?thesis
    unfolding holds_snapshot_def using d2 t(3,4) l(2,3) live names keep by (simp add: v)
qed

section \<open>Create\<close>

lemma backup_Exists_unchanged [guar]: "guarantees unchanged (backup_Exists n)"
  unfolding backup_Exists_def by (intro guar) (auto split: sum.split intro!: guar)

lemma backup_Exists_Ok:
  "\<lbrakk>simple_name n; backup_Exists n w = (Ok b, v)\<rbrakk> \<Longrightarrow> b \<longleftrightarrow> look w (backups_dir @ [n]) \<noteq> None"
  by (auto simp: backup_Exists_def run_simps split: if_splits dest!: stat_Ok stat_Err)

text \<open>The part after the check, from the cleaning of an old temporary directory on.\<close>

definition take_snapshot :: "shell \<Rightarrow> last_boot \<Rightarrow> path \<Rightarrow> path \<Rightarrow> unit io" where
  "take_snapshot sh meta tmp final =
     after (wrapped (''clean stale '' @ path_text tmp @ '': '') (remove_all tmp))
       (after (mkdir_all tmp)
       (after (fill_snapshot sh meta tmp)
         (or_rollback tmp (wrapped (''rename '' @ path_text tmp @ '' -> '' @ path_text final @ '': '')
           (rename tmp final)))))"

lemma on_err_cases:
  assumes "on_err m h w = (r, v)"
  obtains (fine) "m w = (r, v)" "\<forall>e. r \<noteq> Err e" | (handled) e u where "m w = (Err e, u)" "h e u = (r, v)"
  using assms by (auto simp: on_err_def split: prod.splits res.splits)

lemma wrapped_cases:
  assumes "wrapped s m w = (r, v)"
  obtains r' where "m w = (r', v)" "r = Ok x \<longleftrightarrow> r' = Ok x"
  using assms unfolding wrapped_def
  by (auto elim!: on_err_cases simp: run_simps)

lemma finish_cases:
  assumes run: "or_rollback tmp (wrapped s (rename tmp final)) w = (r, v)" and np: "\<not> prefix tmp final"
  obtains (kept) "same_outside (below tmp) (fs w) (fs v)" "r \<noteq> Ok ()"
    | (moved) t where "fs v = move tmp final t (fs w)" "r = Ok ()" "\<not> is_dir (fs w) final"
  using run [unfolded or_rollback_def wrapped_def]
proof (cases rule: on_err_cases)
  case fine
  then show thesis
  proof (cases rule: on_err_cases)
    case 1: fine
    from 1(1) np have "rename tmp final w = (r, v)" "tmp \<noteq> final"
      by auto
    then show thesis
      by (cases rule: rename_cases) (use that outside.rel_refl in auto)
  next
    case (handled e u)
    with fine show thesis
      by (simp add: run_simps)
  qed
next
  case (handled e u)
  from handled(1) have "fs u = fs w"
    by (auto elim!: on_err_cases simp: run_simps dest: rename_not_Ok [OF disjI1])
  moreover have g: "guarantees (same_outside (below tmp)) (rollbackTmp tmp e)"
    by (intro guar) simp
  moreover have "r \<noteq> Ok ()"
    using handled(2) by (auto simp: rollback_not_Ok)
  ultimately show thesis
    using that(1) guaranteesD [OF g handled(2)] by metis
qed

text \<open>The part before the rename: it fails within its zone, or the snapshot is complete.\<close>

definition prepare_snapshot :: "shell \<Rightarrow> last_boot \<Rightarrow> path \<Rightarrow> unit io" where
  "prepare_snapshot sh meta tmp =
     after (wrapped (''clean stale '' @ path_text tmp @ '': '') (remove_all tmp))
       (after (mkdir_all tmp) (fill_snapshot sh meta tmp))"

lemma after_assoc: "after (after a b) c = after a (after b c)"
  by (rule ext) (auto simp: after_def seq_def split: prod.splits res.splits)

lemma prepare_cases:
  assumes cp: "cp_contract sh" and tmp: "tmp = backups_dir @ [t]"
    and run: "prepare_snapshot sh meta tmp w = (r, v)" and wf: "wf_files (fs w)"
    and up: "look w backups_dir = Some Dir"
  shows "same_outside (create_zone tmp) (fs w) (fs v)"
    "r = Ok () \<Longrightarrow> holds_snapshot (fs w) meta (fs v) tmp"
proof -
  have "below tmp \<subseteq> create_zone tmp" "above tmp \<subseteq> create_zone tmp"
    using zone_below_tmp [of tmp tmp] zone_above_tmp [OF tmp, of tmp] by simp_all
  then have "guarantees (same_outside (create_zone tmp)) (prepare_snapshot sh meta tmp)"
    unfolding prepare_snapshot_def by (intro guar outside_fill [OF cp tmp])
  from guaranteesD [OF this run] show "same_outside (create_zone tmp) (fs w) (fs v)" .
  assume "r = Ok ()"
  with run obtain w1 w2 where rm: "remove_all tmp w = (Ok (), w1)" and mk: "mkdir_all tmp w1 = (Ok (), w2)"
    and fill: "fill_snapshot sh meta tmp w2 = (Ok (), v)"
    by (auto simp: prepare_snapshot_def run_simps)
  have "guarantees keeps_wf (remove_all tmp)"
    by (intro guar) (simp add: tmp)
  from guaranteesD [OF this rm] have wf1: "wf_files (fs w1)"
    using wf by (simp add: keeps_wf_def)
  then have wf2: "wf_files (fs w2)"
    using guaranteesD [OF wf_mkdir_all mk] by (simp add: keeps_wf_def)
  have gone: "look w1 (tmp @ q) = None" for q
    using remove_all_Ok [OF rm] wf_below_absent [OF wf, of tmp "tmp @ q"] by auto
  have up1: "look w1 backups_dir = Some Dir"
    using remove_all_Ok [OF rm] up by (auto simp: tmp)
  note made = mkdir_all_one [OF mk [unfolded tmp] wf1 up1, folded tmp]
  have new: "look w2 (tmp @ x # q) = None" for x q
    using made(2) gone [of "x # q"] by (simp add: same_outside_def)
  have "below tmp \<subseteq> create_zone tmp" "{tmp} \<subseteq> create_zone tmp"
    by (auto simp: create_zone_def)
  then have "same_outside (create_zone tmp) (fs w) (fs w2)"
    using guaranteesD [OF outside_remove_all rm] same_outside_mono [OF made(2)]
    by (blast intro: outside.rel_trans)
  from holds_snapshot_source [OF fill_snapshot_Ok [OF cp tmp fill wf2 made(1) new] this zone_live [OF tmp]]
  show "holds_snapshot (fs w) meta (fs v) tmp" .
qed

lemma take_snapshot_cases:
  assumes cp: "cp_contract sh" and tmp: "tmp = backups_dir @ [t]" and final: "final = backups_dir @ [n]"
    and "t \<noteq> n" and run: "take_snapshot sh meta tmp final w = (r, v)" and wf: "wf_files (fs w)"
    and up: "look w backups_dir = Some Dir"
  obtains (kept) "same_outside (create_zone tmp) (fs w) (fs v)" "r \<noteq> Ok ()"
    | (taken) "same_outside (create_zone tmp \<union> below final) (fs w) (fs v)" "\<not> is_dir (fs w) final"
      "holds_snapshot (fs w) meta (fs v) final" "r = Ok ()"
proof -
  have np: "\<not> prefix tmp final" "\<not> prefix final tmp"
    using \<open>t \<noteq> n\<close> by (auto simp: tmp final)
  have zone: "below tmp \<subseteq> create_zone tmp"
    by (simp add: create_zone_def)
  from run have "after (prepare_snapshot sh meta tmp)
      (or_rollback tmp (wrapped (''rename '' @ path_text tmp @ '' -> '' @ path_text final @ '': '')
           (rename tmp final))) w = (r, v)"
    by (simp only: take_snapshot_def prepare_snapshot_def after_assoc)
  then show thesis
  proof (cases rule: after_cases)
    case (stopped r')
    with prepare_cases(1) [OF cp tmp stopped(1) wf up] that(1) show thesis
      by blast
  next
    case (through u)
    note prep = prepare_cases [OF cp tmp through(1) wf up]
    from through(2) np(1) show thesis
    proof (cases rule: finish_cases)
      case kept
      with prep(1) that(1) zone show thesis
        by (blast intro: outside.rel_trans same_outside_mono)
    next
      case (moved x)
      note look = lookup_move [OF np, of x "fs u"]
      have "holds_snapshot (fs w) meta (fs v) final"
        using prep(2) by (simp add: holds_snapshot_def moved(1) look)
      moreover have "same_outside (create_zone tmp \<union> below final) (fs w) (fs v)"
        using prep(1) zone by (auto simp: same_outside_def moved(1) look)
      moreover have "\<not> is_dir (fs w) final"
        using moved(3) same_outsideD [OF prep(1), of final] np(1)
        by (simp add: is_dir_def create_zone_def final)
      ultimately show thesis
        using that(2) moved(2) by blast
    qed
  qed
qed

text \<open>Create under every schedule.\<close>

lemma create_checked_cases:
  assumes cp: "cp_contract sh" and n: "simple_name name"
    and final: "final = backups_dir @ [name]" and tmp: "tmp = backups_dir @ [name @ ''.tmp'']"
    and run: "seq (backup_Exists name) (\<lambda>exists. if exists then return () else take_snapshot sh meta tmp final) w = (r, v)"
    and wf: "wf_files (fs w)" and up: "look w backups_dir = Some Dir"
  obtains (kept) "same_outside (create_zone tmp) (fs w) (fs v)" "r = Ok () \<Longrightarrow> look w final \<noteq> None"
    | (taken) "same_outside (create_zone tmp \<union> below final) (fs w) (fs v)" "look w final = None"
      "holds_snapshot (fs w) meta (fs v) final" "r = Ok ()"
  using run
proof (cases rule: seq_cases)
  case (stopped r')
  with guaranteesD [OF backup_Exists_unchanged stopped(1)] that(1) show thesis
    by (simp add: unchanged_def outside.rel_refl)
next
  case (through b x)
  have x: "fs x = fs w" "b \<longleftrightarrow> look w final \<noteq> None"
    using guaranteesD [OF backup_Exists_unchanged through(1)] backup_Exists_Ok [OF n through(1)]
    by (simp_all add: unchanged_def final)
  show thesis
  proof (cases b)
    case True
    with through(2) x that(1) show thesis
      by (simp add: run_simps outside.rel_refl)
  next
    case False
    then have "take_snapshot sh meta tmp final x = (r, v)" "wf_files (fs x)" "look x backups_dir = Some Dir" "name @ ''.tmp'' \<noteq> name"
      using through(2) x(1) wf up by simp_all
    from cp tmp final this(4,1-3) show thesis
      by (rule take_snapshot_cases) (use x False that in auto)
  qed
qed

lemma backup_Create_cases:
  assumes cp: "cp_contract sh" and n: "simple_name (backup_Name meta)"
    and run: "backup_Create sh meta w = (r, v)" and wf: "wf_files (fs w)"
    and final: "final = backups_dir @ [backup_Name meta]" and tmp: "tmp = backups_dir @ [backup_Name meta @ ''.tmp'']"
  obtains (kept) "same_outside (create_zone tmp) (fs w) (fs v)" "r = Ok () \<Longrightarrow> look w final \<noteq> None"
    | (taken) "same_outside (create_zone tmp \<union> below final) (fs w) (fs v)" "look w final = None"
      "holds_snapshot (fs w) meta (fs v) final" "r = Ok ()"
proof (cases "deployment_id meta = '''' \<or> boot_id meta = ''''")
  case True
  with run have "fs v = fs w" "r \<noteq> Ok ()"
    by (auto simp: backup_Create_def run_simps)
  with that(1) show thesis
    by (simp add: outside.rel_refl)
next
  case False
  have e: "joinp backups_dir (backup_Name meta) = final" "add_suffix final ''.tmp'' = tmp"
    using n by (simp_all add: final tmp)
  have g: "guarantees (same_outside (create_zone tmp)) (mkdir_all backups_dir)"
    by (intro guar) (simp add: create_zone_def)
  from run False have "after (mkdir_all backups_dir) (seq (backup_Exists (backup_Name meta))
      (\<lambda>exists. if exists then return () else take_snapshot sh meta tmp final)) w = (r, v)"
    unfolding backup_Create_def Let_def e take_snapshot_def by simp
  then show thesis
  proof (cases rule: after_cases)
    case (stopped r')
    with guaranteesD [OF g] that(1) show thesis
      by blast
  next
    case (through u)
    note ou = guaranteesD [OF g through(1)]
    have wfu: "wf_files (fs u)"
      using guaranteesD [OF wf_mkdir_all through(1)] wf by (simp add: keeps_wf_def)
    have "below final \<inter> create_zone tmp = {}"
      by (auto simp: create_zone_def final tmp prefix_def)
    then have lf: "look u final = look w final"
      by (intro same_outsideD [OF ou]) auto
    have ub: "look u backups_dir = Some Dir"
      using mkdir_all_Ok [OF through(1)] wf by (auto simp: missing_dirs_iff is_file_def split: option.splits node.splits)
    from cp n final tmp through(2) wfu ub show thesis
    proof (cases rule: create_checked_cases)
      case kept
      with ou lf that(1) show thesis
        by (metis outside.rel_trans)
    next
      case taken
      have "same_outside (create_zone tmp \<union> below final) (fs w) (fs v)"
        using taken(1) ou by (auto intro: outside.rel_trans same_outside_mono)
      with that(2) taken(2,4) lf holds_snapshot_source [OF taken(3) ou zone_live [OF tmp]] show thesis
        by simp
    qed
  qed
qed

lemma wf_backup_Create [guar]:
  assumes "cp_contract sh" "simple_name (backup_Name meta)"
  shows "guarantees keeps_wf (backup_Create sh meta)"
proof -
  have "backups_dir @ [backup_Name meta @ ''.tmp''] \<noteq> []"
    by simp
  with assms show ?thesis
    unfolding backup_Create_def backup_Exists_def Let_def
    by (auto simp del: append_is_Nil_conv split: sum.split intro!: guar wf_fill_snapshot)
qed

section \<open>Properties\<close>

text \<open>C2: a crash or a failure at any call of Create leaves either no change at the place of the
  backup, or a complete snapshot of the live trees as they were before, and a success means there
  is a backup by this name.  A backup that exists is never touched, nor are the live trees; besides
  the backup only its temporary directory and missing parents can have changed.\<close>

theorem backup_Create_all_or_nothing:
  assumes "cp_contract sh" and "wf_files (fs w)" and "simple_name (backup_Name meta)"
    and "backup_Create sh meta w = (r, v)"
  shows "((\<forall>q. look v (backups_dir @ backup_Name meta # q) = look w (backups_dir @ backup_Name meta # q)) \<and>
        (r = Ok () \<longrightarrow> look w (backups_dir @ [backup_Name meta]) \<noteq> None)
      \<or> look w (backups_dir @ [backup_Name meta]) = None \<and> r = Ok () \<and>
        holds_snapshot (fs w) meta (fs v) (backups_dir @ [backup_Name meta])) \<and>
    (\<forall>q \<in> live_trees. look v q = look w q) \<and>
    (\<forall>q. q \<notin> below (backups_dir @ [backup_Name meta]) \<union> create_zone (backups_dir @ [backup_Name meta @ ''.tmp'']) \<longrightarrow>
       look v q = look w q)"
  using assms(1,3,4,2) refl refl
proof (cases rule: backup_Create_cases)
  let ?final = "backups_dir @ [backup_Name meta]" and ?tmp = "backups_dir @ [backup_Name meta @ ''.tmp'']"
  have live: "q \<notin> create_zone ?tmp" "q \<notin> below ?final" if "q \<in> live_trees" for q
    using that zone_live [OF refl, of "backup_Name meta @ ''.tmp''"]
    by (auto simp: live_trees_def paths_defs prefix_def)
  have zf: "backups_dir @ backup_Name meta # q \<notin> create_zone ?tmp" for q
    by (auto simp: create_zone_def prefix_def)
  {
    case kept
    then show ?thesis
      using live zf by (auto simp: same_outside_def)
  next
    case taken
    then show ?thesis
      using live by (auto simp: same_outside_def)
  }
qed

definition live_files :: files where
  "live_files = \<lparr>ents =
     [([], Dir), ([''var''], Dir), ([''var'', ''lib''], Dir), (etcd_data_dir, Dir),
      (etcd_data_dir @ [''db''], File ''e'')], stamps = []\<rparr>"

definition live_boot :: last_boot where
  "live_boot = \<lparr>lb_version = ''1'', deployment_id = ''d'', boot_id = ''b''\<rparr>"

lemma backup_Create_all_or_nothing_witness:
  "look (snd (backup_Create (sample_shell '''') live_boot (quiet live_files)))
     (backups_dir @ [''d_b'', ''etcd'', ''db'']) = Some (File ''e'')"
proof -
  have n: "backup_Name live_boot = ''d_b''"
    by code_simp
  obtain v where run: "backup_Create (sample_shell '''') live_boot (quiet live_files) = (Ok (), v)"
    if "fst (backup_Create (sample_shell '''') live_boot (quiet live_files)) = Ok ()"
    by (cases "backup_Create (sample_shell '''') live_boot (quiet live_files)") auto
  have ok: "fst (backup_Create (sample_shell '''') live_boot (quiet live_files)) = Ok ()"
    by code_simp
  have "wf_files (fs (quiet live_files))" "look (quiet live_files) (backups_dir @ [''d_b'']) = None"
      "look (quiet live_files) (etcd_data_dir @ [''db'']) = Some (File ''e'')"
    by code_simp+
  with backup_Create_all_or_nothing [OF cp_contract_sample _ _ run [OF ok], unfolded n] show ?thesis
    unfolding run [OF ok] by (auto simp: simple_name_def holds_snapshot_def)
qed

end
