(* ===== verification/Kubeadm.thy ===== *)
theory Kubeadm
imports Calls Config Backup_Snapshot
begin

text \<open>
  internal/kubeadm: the translation of the configuration into kubeadm's InitConfiguration, and the
  phases of kubeadm that the program runs as library calls.  The library is not part of the
  repository: its default configuration is the parameter \<open>dflt\<close>, its phases are calls of the
  parameter \<open>sh\<close>, with the values they are given as arguments.
\<close>

section \<open>The configuration of kubeadm\<close>

text \<open>The fields the code sets, in the structs they belong to; \<open>rest\<close> stands for the fields it leaves
  as they are.  Durations are Go's, nanoseconds in 64 bits.\<close>

record kubelet_config =
  kubelet_dns :: "string list"
  kubelet_domain :: string
  kubelet_driver :: string
  kubelet_rest :: string

record cluster_config =
  cluster_name :: string
  cluster_version :: string
  cluster_pki :: path
  cluster_services :: string
  cluster_pods :: string
  cluster_domain :: string
  cluster_etcd :: "(string list \<times> string list) option"
  cluster_sans :: "string list"
  cluster_ca_period :: "64 word"
  cluster_leaf_period :: "64 word"
  cluster_kubelet :: "kubelet_config option"
  cluster_rest :: string

record node_registration =
  reg_name :: string
  reg_socket :: string
  reg_taints :: "taint list option"
  reg_rest :: string

record api_endpoint =
  ep_address :: string
  ep_port :: "32 word"

record init_config =
  cluster :: cluster_config
  registration :: node_registration
  endpoint :: api_endpoint
  init_rest :: string

record layout =
  PKIDir :: path
  KubeconfigDir :: path
  ManifestsDir :: path
  KubeletDir :: path

definition DefaultLayout :: layout where
  "DefaultLayout = \<lparr>PKIDir = pki_dir, KubeconfigDir = kubeconfig_dir, ManifestsDir = manifests_dir,
     KubeletDir = kubelet_dir\<rparr>"

definition KubernetesVersion :: string where
  "KubernetesVersion = ''v1.35.0''"

definition config_sans :: "nanok8s_config \<Rightarrow> string list" where
  "config_sans c = extraSANs (certificates (spec c))"

text \<open>\<open>time.Duration(days) * day\<close>: the number is extended with its sign to 64 bits, the product wraps.\<close>

definition day :: "64 word" where
  "day = 86400000000000"

definition validity_period :: "32 word \<Rightarrow> 64 word" where
  "validity_period days = scast days * day"

definition set_cluster :: "nanok8s_config \<Rightarrow> layout \<Rightarrow> cluster_config \<Rightarrow> cluster_config" where
  "set_cluster c l cc = cc\<lparr>
     cluster_name := ''kubernetes'',
     cluster_version := KubernetesVersion,
     cluster_pki := PKIDir l,
     cluster_services := serviceSubnet (controlPlane (spec c)),
     cluster_pods := podSubnet (controlPlane (spec c)),
     cluster_domain := ''cluster.local'',
     cluster_etcd := map_option (\<lambda>_. (config_sans c, config_sans c)) (cluster_etcd cc),
     cluster_sans := config_sans c,
     cluster_ca_period := validity_period (caValidityDays (certificates (spec c))),
     cluster_leaf_period := validity_period (leafValidityDays (certificates (spec c))),
     cluster_kubelet := map_option (\<lambda>k. k\<lparr>kubelet_dns := [clusterDNS (controlPlane (spec c))],
         kubelet_domain := ''cluster.local'', kubelet_driver := cgroupDriver (runtime (spec c))\<rparr>)
       (cluster_kubelet cc)\<rparr>"

definition translated :: "nanok8s_config \<Rightarrow> layout \<Rightarrow> string \<Rightarrow> init_config \<Rightarrow> init_config" where
  "translated c l node kc = kc\<lparr>
     cluster := set_cluster c l (cluster kc),
     registration := (registration kc)\<lparr>reg_name := node, reg_socket := criSocket (runtime (spec c)),
       reg_taints := taints (nodeRegistration (spec c))\<rparr>,
     endpoint := \<lparr>ep_address = advertiseAddress (controlPlane (spec c)),
       ep_port = bindPort (controlPlane (spec c))\<rparr>\<rparr>"

definition BuildInitConfiguration ::
  "err + init_config \<Rightarrow> nanok8s_config \<Rightarrow> layout \<Rightarrow> string \<Rightarrow> init_config io" where
  "BuildInitConfiguration dflt c l node =
     (case dflt of
        Inl e \<Rightarrow> raise (Wrap ''kubeadm default init config: '' e '''')
      | Inr kc \<Rightarrow> return (translated c l node kc))"

section \<open>Arguments of the phases\<close>

text \<open>How the structs a phase receives appear in a call.\<close>

definition words :: "string list \<Rightarrow> arg" where
  "words ss = Group (map Word ss)"

definition taint_arg :: "taint \<Rightarrow> arg" where
  "taint_arg t = words [tkey t, tvalue t, teffect t]"

definition taints_arg :: "taint list option \<Rightarrow> arg" where
  "taints_arg ts = (case ts of None \<Rightarrow> Word ''nil'' | Some us \<Rightarrow> Group (map taint_arg us))"

definition kubelet_arg :: "kubelet_config \<Rightarrow> arg" where
  "kubelet_arg k = Group [words (kubelet_dns k), Word (kubelet_domain k), Word (kubelet_driver k), Word (kubelet_rest k)]"

definition cluster_arg :: "cluster_config \<Rightarrow> arg" where
  "cluster_arg cc = Group
     [Word (cluster_name cc), Word (cluster_version cc), Path (cluster_pki cc), Word (cluster_services cc),
      Word (cluster_pods cc), Word (cluster_domain cc),
      (case cluster_etcd cc of None \<Rightarrow> Word ''nil'' | Some (s, p) \<Rightarrow> Group [words s, words p]),
      words (cluster_sans cc), Num (sint (cluster_ca_period cc)),
      Num (sint (cluster_leaf_period cc)),
      (case cluster_kubelet cc of None \<Rightarrow> Word ''nil'' | Some k \<Rightarrow> kubelet_arg k), Word (cluster_rest cc)]"

definition registration_arg :: "node_registration \<Rightarrow> arg" where
  "registration_arg r = Group [Word (reg_name r), Word (reg_socket r), taints_arg (reg_taints r), Word (reg_rest r)]"

definition endpoint_arg :: "api_endpoint \<Rightarrow> arg" where
  "endpoint_arg p = Group [Word (ep_address p), Num (sint (ep_port p))]"

definition init_arg :: "init_config \<Rightarrow> arg" where
  "init_arg kc = Group [cluster_arg (cluster kc), registration_arg (registration kc), endpoint_arg (endpoint kc),
     Word (init_rest kc)]"

section \<open>The phases that write files\<close>

definition layout_dirs :: "layout \<Rightarrow> path list" where
  "layout_dirs l = [PKIDir l, KubeconfigDir l, ManifestsDir l, KubeletDir l]"

definition kubeconfig_names :: "string list" where
  "kubeconfig_names = [''admin.conf'', ''super-admin.conf'', ''controller-manager.conf'', ''scheduler.conf'', ''kubelet.conf'']"

definition pki_call :: "init_config \<Rightarrow> call" where
  "pki_call kc = [Word ''certs.CreatePKIAssets'', init_arg kc]"

definition kubeconfig_call :: "init_config \<Rightarrow> layout \<Rightarrow> string \<Rightarrow> call" where
  "kubeconfig_call kc l n = [Word ''kubeconfig.CreateKubeConfigFile'', Word n, Path (KubeconfigDir l), init_arg kc]"

definition etcd_call :: "init_config \<Rightarrow> layout \<Rightarrow> string \<Rightarrow> call" where
  "etcd_call kc l node = [Word ''etcd.CreateLocalEtcdStaticPodManifestFile'', Path (ManifestsDir l), Word '''', Word node,
     cluster_arg (cluster kc), endpoint_arg (endpoint kc), Word ''false'']"

definition manifests_call :: "init_config \<Rightarrow> layout \<Rightarrow> call" where
  "manifests_call kc l = [Word ''controlplane.CreateInitStaticPodManifestFiles'', Path (ManifestsDir l), Word '''',
     init_arg kc, Word ''false'']"

definition kubelet_env_call :: "init_config \<Rightarrow> layout \<Rightarrow> call" where
  "kubelet_env_call kc l = [Word ''kubelet.WriteKubeletDynamicEnvFile'', cluster_arg (cluster kc),
     registration_arg (registration kc), Word ''false'', Path (KubeletDir l)]"

definition kubelet_instance_call :: "init_config \<Rightarrow> layout \<Rightarrow> call" where
  "kubelet_instance_call kc l = [Word ''kubelet.WriteInstanceConfigToDisk'', Word (reg_socket (registration kc)),
     Path (KubeletDir l)]"

definition kubelet_config_call :: "init_config \<Rightarrow> layout \<Rightarrow> call" where
  "kubelet_config_call kc l = [Word ''kubelet.WriteConfigToDisk'', cluster_arg (cluster kc), Path (KubeletDir l),
     Word '''', Word ''stderr'']"

definition phase :: "shell \<Rightarrow> string \<Rightarrow> call \<Rightarrow> unit io" where
  "phase sh pre c = seq (lib_call sh pre c) (\<lambda>_. return ())"

definition run_phases :: "shell \<Rightarrow> init_config \<Rightarrow> layout \<Rightarrow> string \<Rightarrow> unit io" where
  "run_phases sh kc l node =
     after (for_each (layout_dirs l) (\<lambda>d. wrapped (''mkdir '' @ path_text d @ '': '') (mkdir_all d)))
    (after (phase sh ''create PKI assets: '' (pki_call kc))
    (after (for_each kubeconfig_names (\<lambda>n. phase sh (''create kubeconfig '' @ n @ '': '') (kubeconfig_call kc l n)))
    (after (phase sh ''create etcd manifest: '' (etcd_call kc l node))
    (after (phase sh ''create control plane manifests: '' (manifests_call kc l))
    (after (phase sh ''write kubelet env file: '' (kubelet_env_call kc l))
    (after (phase sh ''write kubelet instance config: '' (kubelet_instance_call kc l))
           (phase sh ''write kubelet config: '' (kubelet_config_call kc l))))))))"

definition Ensure :: "shell \<Rightarrow> err + init_config \<Rightarrow> nanok8s_config \<Rightarrow> layout \<Rightarrow> string \<Rightarrow> unit io" where
  "Ensure sh dflt c l node = seq (BuildInitConfiguration dflt c l node) (\<lambda>kc. run_phases sh kc l node)"

section \<open>The phases that talk to the API server\<close>

text \<open>A client is known by the token that the library call returned for it.\<close>

type_synonym client = string

definition rbac_call :: "layout \<Rightarrow> call" where
  "rbac_call l = [Word ''kubeconfig.EnsureAdminClusterRoleBinding'', Path (KubeconfigDir l), Word ''nil'']"

definition EnsureAdminRBAC :: "shell \<Rightarrow> layout \<Rightarrow> client io" where
  "EnsureAdminRBAC sh l =
     seq (lib_call sh ''ensure admin cluster role binding: '' (rbac_call l)) (\<lambda>r. return (stdout r))"

definition mark_call :: "client \<Rightarrow> nanok8s_config \<Rightarrow> string \<Rightarrow> call" where
  "mark_call cl c node = [Word ''markcontrolplane.MarkControlPlane'', Word cl, Word node,
     taints_arg (taints (nodeRegistration (spec c)))]"

definition MarkControlPlane :: "shell \<Rightarrow> client \<Rightarrow> nanok8s_config \<Rightarrow> string \<Rightarrow> unit io" where
  "MarkControlPlane sh cl c node = phase sh ''mark control-plane: '' (mark_call cl c node)"

definition dns_call :: "init_config \<Rightarrow> client \<Rightarrow> call" where
  "dns_call kc cl = [Word ''dns.EnsureDNSAddon'', cluster_arg (cluster kc), Word cl, Word '''', Word ''out'', Word ''false'']"

definition proxy_call :: "init_config \<Rightarrow> client \<Rightarrow> call" where
  "proxy_call kc cl = [Word ''proxy.EnsureProxyAddon'', cluster_arg (cluster kc), endpoint_arg (endpoint kc), Word cl,
     Word ''out'', Word ''false'']"

definition EnsureAddons :: "shell \<Rightarrow> err + init_config \<Rightarrow> nanok8s_config \<Rightarrow> layout \<Rightarrow> client \<Rightarrow> unit io" where
  "EnsureAddons sh dflt c l cl =
     seq (BuildInitConfiguration dflt c l ''addons'') (\<lambda>kc.
       after (phase sh ''ensure CoreDNS: '' (dns_call kc cl))
             (phase sh ''ensure kube-proxy: '' (proxy_call kc cl)))"

section \<open>Durations\<close>

text \<open>C35: the validity periods handed to kubeadm are the configured numbers of days exactly up to
  106751 days either way; beyond that the product of 64 bits wraps.\<close>

theorem validity_period_exact:
  "sint (validity_period days) = sint days * 86400000000000 \<longleftrightarrow> \<bar>sint days\<bar> \<le> 106751"
proof -
  define i where "i = sint days * 86400000000000"
  have "validity_period days = word_of_int (sint days) * word_of_int 86400000000000"
    by (simp only: validity_period_def day_def scast_eq word_of_int_numeral)
  then have "validity_period days = word_of_int i"
    by (simp only: wi_hom_mult i_def)
  then have "sint (validity_period days) = signed_take_bit 63 i"
    by (simp add: sint_sbintrunc')
  moreover have "signed_take_bit 63 i = i \<longleftrightarrow> - (2 ^ 63) \<le> i \<and> i < 2 ^ 63"
    by (rule signed_take_bit_int_eq_self_iff)
  moreover have "- (2 ^ 63) \<le> i \<and> i < 2 ^ 63 \<longleftrightarrow> \<bar>sint days\<bar> \<le> 106751"
    unfolding i_def by auto
  ultimately show ?thesis
    unfolding i_def by simp
qed

definition long_config :: nanok8s_config where
  "long_config = (let c = SetDefaults (minimal_config (dotted 10 0 0 1))
     in c\<lparr>spec := (spec c)\<lparr>certificates := (certificates (spec c))\<lparr>caValidityDays := 200000\<rparr>\<rparr>\<rparr>)"

text \<open>A configuration that passes validation can ask for a period that wraps: 200000 days for the
  certificate authority reach kubeadm as a negative duration.\<close>

lemma validity_period_negative:
  "Validate long_config = None \<and>
   (\<forall>d l node u. \<exists>kc. BuildInitConfiguration (Inr d) long_config l node u = (Ok kc, u) \<and>
      sint (cluster_ca_period (cluster kc)) < 0)"
proof
  have "Validate (SetDefaults (minimal_config (dotted 10 0 0 1))) = None"
    by (simp add: minimal_config_valid ParseIP_of_dotted)
  then have "valid_config (SetDefaults (minimal_config (dotted 10 0 0 1)))"
    by (simp add: Validate_valid)
  then have "valid_config long_config"
    by (simp add: valid_config_def long_config_def Let_def)
  then show "Validate long_config = None"
    by (simp add: Validate_valid)
next
  have "caValidityDays (certificates (spec long_config)) = 200000"
    by (simp add: long_config_def Let_def)
  moreover have "sint (validity_period 200000) < 0"
    by (simp add: validity_period_def day_def)
  ultimately show "\<forall>d l node u. \<exists>kc. BuildInitConfiguration (Inr d) long_config l node u = (Ok kc, u) \<and>
      sint (cluster_ca_period (cluster kc)) < 0"
    by (simp add: BuildInitConfiguration_def return_def translated_def set_cluster_def)
qed

section \<open>Order and reach of the phases\<close>

definition ensure_calls :: "init_config \<Rightarrow> layout \<Rightarrow> string \<Rightarrow> call list" where
  "ensure_calls kc l node =
     [pki_call kc] @ map (kubeconfig_call kc l) kubeconfig_names @
     [etcd_call kc l node, manifests_call kc l, kubelet_env_call kc l, kubelet_instance_call kc l, kubelet_config_call kc l]"

lemma follows_phase [follow]: "follows [c] (phase sh pre c)"
  using follows_seq [OF follows_lib_call follows_return, of c sh pre "\<lambda>_. ()"] by (simp add: phase_def)

lemma phase_guarantees:
  "confined sh P A \<Longrightarrow> P c \<Longrightarrow> guarantees (same_outside A) (phase sh pre c)"
  "confined sh P A \<Longrightarrow> P c \<Longrightarrow> guarantees keeps_wf (phase sh pre c)"
  "Q c \<Longrightarrow> only_calls Q (phase sh pre c)"
  unfolding phase_def
  by (auto intro!: guar outside_lib_call [of sh P A] wf_lib_call [of sh P A])

lemma concat_single: "concat (map (\<lambda>x. [f x]) xs) = map f xs"
  by (induction xs) auto

lemma follows_run_phases: "follows (ensure_calls kc l node) (run_phases sh kc l node)"
proof -
  have dirs: "follows [] (for_each (layout_dirs l) (\<lambda>d. wrapped (''mkdir '' @ path_text d @ '': '') (mkdir_all d)))"
    by (rule follows_silent) (intro guar)
  have confs: "follows (map (kubeconfig_call kc l) kubeconfig_names)
      (for_each kubeconfig_names (\<lambda>n. phase sh (''create kubeconfig '' @ n @ '': '') (kubeconfig_call kc l n)))"
    using follows_for_each [where c = "\<lambda>n. [kubeconfig_call kc l n]", OF follows_phase, of kubeconfig_names]
    unfolding concat_single .
  note rest = follows_after [OF follows_phase follows_phase]
    follows_after [OF follows_phase follows_after [OF follows_phase follows_phase]]
  have "follows ([] @ [pki_call kc] @ map (kubeconfig_call kc l) kubeconfig_names @ [etcd_call kc l node] @
      [manifests_call kc l] @ [kubelet_env_call kc l] @ [kubelet_instance_call kc l] @ [kubelet_config_call kc l])
      (run_phases sh kc l node)"
    unfolding run_phases_def by (intro follows_after dirs confs follows_phase)
  then show ?thesis
    by (simp add: ensure_calls_def)
qed

definition kubeadm_phases :: "string list" where
  "kubeadm_phases = [''certs.CreatePKIAssets'', ''kubeconfig.CreateKubeConfigFile'',
     ''etcd.CreateLocalEtcdStaticPodManifestFile'', ''controlplane.CreateInitStaticPodManifestFiles'',
     ''kubelet.WriteKubeletDynamicEnvFile'', ''kubelet.WriteInstanceConfigToDisk'', ''kubelet.WriteConfigToDisk'']"

fun is_phase :: "call \<Rightarrow> bool" where
  "is_phase (Word n # _) \<longleftrightarrow> n \<in> set kubeadm_phases"
| "is_phase _ \<longleftrightarrow> False"

lemma ensure_phases [simp]:
  "is_phase (pki_call kc)" "is_phase (kubeconfig_call kc l n)" "is_phase (etcd_call kc l node)"
  "is_phase (manifests_call kc l)" "is_phase (kubelet_env_call kc l)" "is_phase (kubelet_instance_call kc l)"
  "is_phase (kubelet_config_call kc l)"
  by (simp_all add: pki_call_def kubeconfig_call_def etcd_call_def manifests_call_def
      kubelet_env_call_def kubelet_instance_call_def kubelet_config_call_def kubeadm_phases_def)


lemma BuildInitConfiguration_silent [guar]:
  "guarantees unchanged (BuildInitConfiguration dflt c l node)"
  "guarantees (same_outside A) (BuildInitConfiguration dflt c l node)"
  "guarantees keeps_wf (BuildInitConfiguration dflt c l node)"
  "only_calls Q (BuildInitConfiguration dflt c l node)"
  unfolding BuildInitConfiguration_def by (auto split: sum.split intro: guar)

lemma outside_Ensure:
  assumes "confined sh P A" "\<And>c. is_phase c \<Longrightarrow> P c" "\<And>d. d \<in> set (layout_dirs l) \<Longrightarrow> above d \<subseteq> A"
  shows "guarantees (same_outside A) (Ensure sh dflt c l node)"
  unfolding Ensure_def run_phases_def
  by (intro guar phase_guarantees(1) [OF assms(1)] assms(2,3)) simp_all

lemma wf_Ensure:
  assumes "confined sh P A" "\<And>c. is_phase c \<Longrightarrow> P c"
  shows "guarantees keeps_wf (Ensure sh dflt c l node)"
  unfolding Ensure_def run_phases_def
  by (intro guar phase_guarantees(2) [OF assms(1)] assms(2)) simp_all

lemma only_calls_Ensure:
  assumes "\<And>c. is_phase c \<Longrightarrow> Q c"
  shows "only_calls Q (Ensure sh dflt c l node)"
  unfolding Ensure_def run_phases_def
  by (intro guar phase_guarantees(3) assms) simp_all

section \<open>Properties\<close>

lemma Ensure_Inr: "Ensure sh (Inr d) c l node = run_phases sh (translated c l node d) l node"
  by (rule ext) (simp add: Ensure_def BuildInitConfiguration_def seq_def return_def)


text \<open>What Ensure may change in the default layout.\<close>

definition ensure_zone :: "path set" where
  "ensure_zone = below kubernetes_dir \<union> below kubelet_dir \<union> {[], [''etc''], [''var''], [''var'', ''lib'']}"

lemma default_above: "d \<in> set (layout_dirs DefaultLayout) \<Longrightarrow> above d \<subseteq> ensure_zone"
  by (auto simp: layout_dirs_def DefaultLayout_def ensure_zone_def paths_defs prefix_Cons)

lemma ensure_zone_apart: "q \<in> below etcd_data_dir \<union> below nanok8s_var_dir \<union> {config_file} \<Longrightarrow> q \<notin> ensure_zone"
  by (auto simp: ensure_zone_def paths_defs prefix_def)


text \<open>C29: what kubeadm is given for a configuration loaded from a file is sound: an address and a DNS
  address that parse, a port in range, taints that are set and well-formed, the same names in every
  certificate, a known cgroup driver, and whatever the code does not set as kubeadm's defaults have it.\<close>

theorem loaded_config_sound:
  assumes "Load yaml p w = (Ok c, v)" and "BuildInitConfiguration (Inr d) c l node v = (Ok kc, u)"
  shows "ParseIP (ep_address (endpoint kc)) \<noteq> None \<and> sint (ep_port (endpoint kc)) \<in> {1..65535} \<and>
    (\<exists>ts. reg_taints (registration kc) = Some ts \<and> list_all valid_taint ts) \<and>
    cluster_etcd (cluster kc) \<in> {None, Some (cluster_sans (cluster kc), cluster_sans (cluster kc))} \<and>
    (case cluster_kubelet (cluster kc) of None \<Rightarrow> cluster_kubelet (cluster d) = None
      | Some k \<Rightarrow> kubelet_driver k \<in> {''systemd'', ''cgroupfs''} \<and> kubelet_domain k = cluster_domain (cluster kc) \<and>
          list_all (\<lambda>a. ParseIP a \<noteq> None) (kubelet_dns k)) \<and>
    init_rest kc = init_rest d \<and> cluster_rest (cluster kc) = cluster_rest (cluster d) \<and>
    reg_rest (registration kc) = reg_rest (registration d)"
proof -
  obtain e where "valid_config c" "c = SetDefaults e"
    using Load_result [OF assms(1)] by blast
  moreover from this(2) have "taints (nodeRegistration (spec c)) \<noteq> None"
    by (auto simp: SetDefaults_def default_registration_def)
  moreover have "kc = translated c l node d"
    using assms(2) by (simp add: BuildInitConfiguration_def return_run)
  ultimately show ?thesis
    by (cases "cluster_etcd (cluster d)"; cases "cluster_kubelet (cluster d)")
      (auto simp: translated_def set_cluster_def valid_config_def Let_def list_all_iff)
qed

section \<open>Witnesses\<close>

lemma confined_sample: "(\<And>c. P c \<Longrightarrow> c \<noteq> [] \<and> hd c \<noteq> Word ''cp'') \<Longrightarrow> confined (sample_shell out) P A"
  by (auto simp: confined_def sample_shell_def outside.rel_refl wfr.rel_refl)

lemma phase_not_cp: "is_phase c \<Longrightarrow> c \<noteq> [] \<and> hd c \<noteq> Word ''cp''"
  by (cases c rule: is_phase.cases) (auto simp: kubeadm_phases_def)

definition plain_init :: init_config where
  "plain_init = \<lparr>cluster = \<lparr>cluster_name = '''', cluster_version = '''', cluster_pki = [], cluster_services = '''',
       cluster_pods = '''', cluster_domain = '''', cluster_etcd = Some ([], []), cluster_sans = [],
       cluster_ca_period = 0, cluster_leaf_period = 0,
       cluster_kubelet = Some \<lparr>kubelet_dns = [], kubelet_domain = '''', kubelet_driver = '''', kubelet_rest = ''''\<rparr>,
       cluster_rest = ''''\<rparr>,
     registration = \<lparr>reg_name = '''', reg_socket = '''', reg_taints = None, reg_rest = ''''\<rparr>,
     endpoint = \<lparr>ep_address = '''', ep_port = 0\<rparr>, init_rest = ''''\<rparr>"


lemma loaded_config_sound_witness:
  "\<exists>kc. BuildInitConfiguration (Inr plain_init) (SetDefaults (minimal_config ''0.0.0.0'')) DefaultLayout ''node'' (quiet config_files) =
       (Ok kc, quiet config_files) \<and> ParseIP (ep_address (endpoint kc)) \<noteq> None"
proof -
  let ?c = "SetDefaults (minimal_config ''0.0.0.0'')"
  let ?kc = "translated ?c DefaultLayout ''node'' plain_init"
  have b: "BuildInitConfiguration (Inr plain_init) ?c DefaultLayout ''node'' (quiet config_files) = (Ok ?kc, quiet config_files)"
    by (simp add: BuildInitConfiguration_def return_def)
  from loaded_config_sound [OF Load_sample b] show ?thesis
    using b by blast
qed

end
