(* ===== verification/Kubeclient.thy ===== *)
theory Kubeclient
imports Calls Paths
begin

text \<open>
  internal/kubeclient/kubeclient.go: a client for the API server and the two waits.  Contexts are
  what is left of their time, in milliseconds.  The first wait is a recursion over that time; how
  long the probes take is a parameter.  The second runs four checks in parallel: its goroutines
  and its main loop take turns, in an order that is a parameter, and the end of the order is the
  moment the context is done.  The transition relation of the same system, without the API server,
  is at the end, with its invariant.
\<close>

section \<open>Contexts\<close>

text \<open>What is left until a context is done, if it ever is, and the error it then has.\<close>

record ctx =
  left :: "nat option"
  cause :: err

definition deadline_exceeded :: err where
  "deadline_exceeded = Text ''context deadline exceeded''"

text \<open>context.WithTimeout: the time that is left and the error, whichever comes first.\<close>

definition with_timeout :: "ctx \<Rightarrow> nat \<Rightarrow> nat \<times> err" where
  "with_timeout c t = (case left c of None \<Rightarrow> (t, deadline_exceeded)
     | Some n \<Rightarrow> if n < t then (n, cause c) else (t, deadline_exceeded))"

section \<open>The client\<close>

definition rest_config_call :: "path \<Rightarrow> call" where
  "rest_config_call p = [Word ''clientcmd.BuildConfigFromFlags'', Word '''', Path p]"

definition clientset_call :: "string \<Rightarrow> call" where
  "clientset_call cfg = [Word ''kubernetes.NewForConfig'', Word cfg]"

definition LoadAdmin :: "shell \<Rightarrow> path \<Rightarrow> string io" where
  "LoadAdmin sh p =
     seq (lib_call sh (''build rest config from '' @ path_text p @ '': '') (rest_config_call p)) (\<lambda>cfg.
     seq (lib_call sh ''build clientset: '' (clientset_call (stdout cfg))) (\<lambda>r. return (stdout r)))"

section \<open>Waiting for the API server\<close>

definition readyz_call :: "string \<Rightarrow> call" where
  "readyz_call cl = [Word ''GET'', Word ''/readyz'', Word cl]"

definition poll_interval :: nat where
  "poll_interval = 2000"

text \<open>How long each probe takes, and which case a select takes when the timer and the context are ready
  at the same moment.\<close>

record pace =
  probe_time :: "nat \<Rightarrow> nat"
  tie :: "nat \<Rightarrow> bool"

definition not_ready :: "err \<Rightarrow> err \<Rightarrow> err" where
  "not_ready why last_err = Wrap ''apiserver not ready: '' why ('' (last probe: '' @ err_text last_err @ '')'')"

text \<open>The select after a failed probe: what is left when the timer fires first.\<close>

definition next_round :: "pace \<Rightarrow> nat \<Rightarrow> nat \<Rightarrow> nat option" where
  "next_round pc i lft =
     (let l = lft - probe_time pc i
      in if poll_interval < l \<or> (poll_interval = l \<and> tie pc i) then Some (l - poll_interval) else None)"

lemma next_round_less: "next_round pc i lft = Some l \<Longrightarrow> l + poll_interval \<le> lft"
  by (auto simp: next_round_def Let_def split: if_splits)

function wait_rounds :: "shell \<Rightarrow> string \<Rightarrow> pace \<Rightarrow> err \<Rightarrow> nat \<Rightarrow> nat \<Rightarrow> unit io" where
  "wait_rounds sh cl pc why i lft w =
     (case extern sh (readyz_call cl) w of
        (Ok r, v) \<Rightarrow> (case failure r of
            None \<Rightarrow> (Ok (), v)
          | Some e \<Rightarrow> (case next_round pc i lft of
                None \<Rightarrow> (Err (not_ready why e), v)
              | Some l \<Rightarrow> wait_rounds sh cl pc why (Suc i) l v))
      | (Err e, v) \<Rightarrow> (Err e, v)
      | (Panic, v) \<Rightarrow> (Panic, v)
      | (Crashed, v) \<Rightarrow> (Crashed, v))"
  by pat_completeness auto

termination
  by (relation "measure (\<lambda>(sh, cl, pc, why, i, lft, w). lft)")
    (auto simp: poll_interval_def dest!: next_round_less)

declare wait_rounds.simps [simp del]

definition WaitForAPIServer :: "shell \<Rightarrow> pace \<Rightarrow> nat \<times> err \<Rightarrow> string \<Rightarrow> unit io" where
  "WaitForAPIServer sh pc tc cl = wait_rounds sh cl pc (snd tc) 0 (fst tc)"

section \<open>Waiting for the control plane\<close>

record ready_check =
  check_name :: string
  query :: call

definition node_query :: "string \<Rightarrow> string \<Rightarrow> call" where
  "node_query cl node = [Word ''Nodes.Get'', Word cl, Word node]"

definition pod_query :: "string \<Rightarrow> string \<Rightarrow> call" where
  "pod_query cl pod = [Word ''Pods.Get'', Word cl, Word ''kube-system'', Word pod]"

fun has_ready :: "(string \<times> string) list \<Rightarrow> bool" where
  "has_ready [] = False"
| "has_ready ((t, s) # cs) = (if t = ''Ready'' \<and> s = ''True'' then True else has_ready cs)"

text \<open>nodeReady and staticPodReady: the object is there and has the condition.\<close>

definition object_ready :: "shell \<Rightarrow> call \<Rightarrow> bool io" where
  "object_ready sh q = seq (extern sh q) (\<lambda>r. case failure r of
       Some e \<Rightarrow> return False
     | None \<Rightarrow> return (has_ready (conditions r)))"

definition nodeReady :: "shell \<Rightarrow> string \<Rightarrow> string \<Rightarrow> bool io" where
  "nodeReady sh cl node = object_ready sh (node_query cl node)"

definition staticPodReady :: "shell \<Rightarrow> string \<Rightarrow> string \<Rightarrow> bool io" where
  "staticPodReady sh cl pod = object_ready sh (pod_query cl pod)"

definition control_plane_checks :: "string \<Rightarrow> string \<Rightarrow> ready_check list" where
  "control_plane_checks cl node =
     \<lparr>check_name = ''node/'' @ node, query = node_query cl node\<rparr> #
     map (\<lambda>n. \<lparr>check_name = ''pod/'' @ n @ node, query = pod_query cl (n @ node)\<rparr>)
       [''kube-apiserver-'', ''kube-controller-manager-'', ''kube-scheduler-'']"

text \<open>The goroutines: which checks are still polling, the channel, and the count of the main loop.  The
  channel has room for every check, so a send never blocks.\<close>

record waiters =
  polling :: "nat list"
  channel :: "string list"
  remaining :: nat

datatype turn = Probe nat | Receive | Expire

definition start_waiters :: "ready_check list \<Rightarrow> waiters" where
  "start_waiters cs = \<lparr>polling = [0..<length cs], channel = [], remaining = length cs\<rparr>"

definition passed_check :: "ready_check list \<Rightarrow> nat \<Rightarrow> waiters \<Rightarrow> waiters" where
  "passed_check cs i s = s\<lparr>polling := removeAll i (polling s), channel := channel s @ [check_name (cs ! i)]\<rparr>"

definition received :: "waiters \<Rightarrow> waiters" where
  "received s = s\<lparr>channel := tl (channel s), remaining := remaining s - 1\<rparr>"

definition pending_error :: "err \<Rightarrow> ready_check list \<Rightarrow> waiters \<Rightarrow> err" where
  "pending_error why cs s = Wrap ''control plane not ready: '' why
     ('' ('' @ show_nat (remaining s) @ ''/'' @ show_nat (length cs) @ '' checks still pending)'')"

text \<open>A turn of a goroutine that is not polling, or of the main loop on an empty channel, is none.\<close>

fun wait_turns :: "shell \<Rightarrow> ready_check list \<Rightarrow> err \<Rightarrow> turn list \<Rightarrow> waiters \<Rightarrow> unit io" where
  "wait_turns sh cs why ts s =
     (if remaining s = 0 then return ()
      else case ts of
         [] \<Rightarrow> raise (pending_error why cs s)
       | Expire # us \<Rightarrow> raise (pending_error why cs s)
       | Receive # us \<Rightarrow> wait_turns sh cs why us (if channel s = [] then s else received s)
       | Probe i # us \<Rightarrow>
           if i \<in> set (polling s)
           then seq (object_ready sh (query (cs ! i))) (\<lambda>b. wait_turns sh cs why us (if b then passed_check cs i s else s))
           else wait_turns sh cs why us s)"

declare wait_turns.simps [simp del]

definition waitAllReady :: "shell \<Rightarrow> err \<Rightarrow> turn list \<Rightarrow> ready_check list \<Rightarrow> unit io" where
  "waitAllReady sh why ts cs = wait_turns sh cs why ts (start_waiters cs)"

definition WaitForControlPlane :: "shell \<Rightarrow> turn list \<Rightarrow> nat \<times> err \<Rightarrow> string \<Rightarrow> string \<Rightarrow> unit io" where
  "WaitForControlPlane sh ts tc cl node = waitAllReady sh (snd tc) ts (control_plane_checks cl node)"

section \<open>How long the first wait polls\<close>

lemma wait_rounds_calls:
  "\<exists>n \<le> lft div poll_interval + 1. trace (snd (wait_rounds sh cl pc why i lft w)) = trace w @ replicate n (readyz_call cl)"
proof (induction sh cl pc why i lft w rule: wait_rounds.induct)
  case (1 sh cl pc why i lft w)
  obtain x v where e: "extern sh (readyz_call cl) w = (x, v)"
    by fastforce
  from follows_extern e obtain k where "k \<le> length [readyz_call cl]" "trace v = trace w @ take k [readyz_call cl]"
    by (rule followsD)
  then have k: "k \<le> 1" "trace v = trace w @ replicate k (readyz_call cl)"
    by (cases k; simp)+
  show ?case
  proof (cases "\<exists>r err l. x = Ok r \<and> failure r = Some err \<and> next_round pc i lft = Some l")
    case False
    then have "trace (snd (wait_rounds sh cl pc why i lft w)) = trace v"
      using e by (auto simp: wait_rounds.simps [of _ _ _ _ i lft w] split: res.split option.split)
    with k show ?thesis
      by (intro exI [of _ k]) simp
  next
    case True
    then obtain r err l where r: "x = Ok r" "failure r = Some err" "next_round pc i lft = Some l"
      by blast
    from e r(1) have t: "trace v = trace w @ [readyz_call cl]"
      using extern_Ok by fastforce
    obtain n where n: "n \<le> l div poll_interval + 1"
      "trace (snd (wait_rounds sh cl pc why (Suc i) l v)) = trace v @ replicate n (readyz_call cl)"
      using "1.IH" [OF e [symmetric] r(1,2,3)] by blast
    have "l div poll_interval + 1 \<le> lft div poll_interval"
      using div_le_mono [OF next_round_less [OF r(3)], of poll_interval] by (simp add: poll_interval_def)
    moreover have "wait_rounds sh cl pc why i lft w = wait_rounds sh cl pc why (Suc i) l v"
      by (simp add: wait_rounds.simps [of _ _ _ _ i lft w] e r)
    ultimately show ?thesis
      using n t by (intro exI [of _ "Suc n"]) simp
  qed
qed

lemma wait_rounds_Ok:
  "wait_rounds sh cl pc why i lft w = (Ok (), v) \<Longrightarrow>
     \<exists>h g r. trace v = h @ [readyz_call cl] \<and> sh h (readyz_call cl) g = (r, fs v) \<and> failure r = None"
proof (induction sh cl pc why i lft w rule: wait_rounds.induct)
  case (1 sh cl pc why i lft w)
  from "1.prems" obtain r u where e: "extern sh (readyz_call cl) w = (Ok r, u)"
    by (auto simp: wait_rounds.simps [of _ _ _ _ i lft w] split: prod.splits res.splits)
  show ?case
  proof (cases "failure r")
    case None
    with "1.prems" e have "v = u"
      by (simp add: wait_rounds.simps [of _ _ _ _ i lft w])
    with None extern_Ok [OF e] show ?thesis
      by blast
  next
    case (Some err)
    with "1.prems" e obtain l where "next_round pc i lft = Some l" "wait_rounds sh cl pc why (Suc i) l u = (Ok (), v)"
      by (auto simp: wait_rounds.simps [of _ _ _ _ i lft w] split: option.splits)
    with "1.IH" [OF e [symmetric] refl Some] show ?thesis
      by blast
  qed
qed

lemma wait_rounds_Err:
  "wait_rounds sh cl pc why i lft w = (Err e, v) \<Longrightarrow> \<exists>l. e = not_ready why l"
proof (induction sh cl pc why i lft w rule: wait_rounds.induct)
  case (1 sh cl pc why i lft w)
  from "1.prems" obtain r u where x: "extern sh (readyz_call cl) w = (Ok r, u)"
    by (auto simp: wait_rounds.simps [of _ _ _ _ i lft w] extern_def Let_def split: prod.splits res.splits if_splits)
  with "1.prems" obtain err where err: "failure r = Some err"
    by (auto simp: wait_rounds.simps [of _ _ _ _ i lft w] split: option.splits)
  show ?case
  proof (cases "next_round pc i lft")
    case None
    with "1.prems" x err show ?thesis
      by (auto simp: wait_rounds.simps [of _ _ _ _ i lft w])
  next
    case (Some l)
    with "1.prems" x err have "wait_rounds sh cl pc why (Suc i) l u = (Err e, v)"
      by (simp add: wait_rounds.simps [of _ _ _ _ i lft w])
    with "1.IH" [OF x [symmetric] refl err Some] show ?thesis
      by blast
  qed
qed

text \<open>With an API server that answers from its k-th probe on and enough time for k rounds.\<close>

lemma extern_calm: "sched w = [] \<Longrightarrow> extern sh c w =
    (Ok (fst (sh (trace w) c (fs w))), w\<lparr>fs := snd (sh (trace w) c (fs w)), trace := trace w @ [c]\<rparr>)"
  by (simp add: extern_def tick_def calm_def Let_def split: prod.split)

lemma wait_rounds_live:
  assumes "\<And>h f. k \<le> count_list h (readyz_call cl) \<Longrightarrow> failure (fst (sh h (readyz_call cl) f)) = None"
    and "\<And>j. probe_time pc j \<le> p"
  shows "sched w = [] \<Longrightarrow> (k - count_list (trace w) (readyz_call cl)) * (p + poll_interval) < lft \<Longrightarrow>
    fst (wait_rounds sh cl pc why i lft w) = Ok ()"
proof (induction "k - count_list (trace w) (readyz_call cl)" arbitrary: w lft i)
  case 0
  then have "failure (fst (sh (trace w) (readyz_call cl) (fs w))) = None"
    using assms(1) by simp
  with 0 show ?case
    by (simp add: wait_rounds.simps [of _ _ _ _ i lft w] extern_calm)
next
  case (Suc m)
  let ?r = "fst (sh (trace w) (readyz_call cl) (fs w))"
  let ?v = "w\<lparr>fs := snd (sh (trace w) (readyz_call cl) (fs w)), trace := trace w @ [readyz_call cl]\<rparr>"
  show ?case
  proof (cases "failure ?r")
    case None
    with Suc.prems show ?thesis
      by (simp add: wait_rounds.simps [of _ _ _ _ i lft w] extern_calm)
  next
    case (Some e)
    have lft: "Suc m * (p + poll_interval) < lft"
      using Suc.prems(2) Suc.hyps(2) by simp
    let ?l = "lft - probe_time pc i - poll_interval"
    have "p + poll_interval < lft"
      using lft by (metis add_lessD1 mult_Suc)
    then have "next_round pc i lft = Some ?l"
      using assms(2) [of i] by (auto simp: next_round_def Let_def)
    moreover have m: "m = k - count_list (trace ?v) (readyz_call cl)"
      using Suc.hyps(2) by simp
    moreover have "m * (p + poll_interval) < ?l"
      using lft assms(2) [of i] by simp
    then have "fst (wait_rounds sh cl pc why (Suc i) ?l ?v) = Ok ()"
      using Suc.hyps(1) [OF m, of ?l "Suc i"] Suc.prems(1) m by simp
    ultimately show ?thesis
      using Some Suc.prems(1) by (simp add: wait_rounds.simps [of _ _ _ _ i lft w] extern_calm)
  qed
qed

section \<open>The parallel wait as a transition system\<close>

inductive wait_step :: "ready_check list \<Rightarrow> waiters \<Rightarrow> waiters \<Rightarrow> bool" for cs where
  pass: "i \<in> set (polling s) \<Longrightarrow> wait_step cs s (passed_check cs i s)"
| receive: "channel s \<noteq> [] \<Longrightarrow> 0 < remaining s \<Longrightarrow> wait_step cs s (received s)"

inductive_cases wait_stepE: "wait_step cs s t"

abbreviation wait_steps :: "ready_check list \<Rightarrow> waiters \<Rightarrow> waiters \<Rightarrow> bool" where
  "wait_steps cs \<equiv> (wait_step cs)\<^sup>*\<^sup>*"

text \<open>The invariant: no check is lost or counted twice.\<close>

definition waiters_ok :: "ready_check list \<Rightarrow> waiters \<Rightarrow> bool" where
  "waiters_ok cs s \<longleftrightarrow> distinct (polling s) \<and> set (polling s) \<subseteq> {..<length cs} \<and>
     remaining s = length (polling s) + length (channel s) \<and> remaining s \<le> length cs"

lemma start_waiters_ok: "waiters_ok cs (start_waiters cs)"
  by (auto simp: waiters_ok_def start_waiters_def)

lemma length_removeAll: "distinct xs \<Longrightarrow> x \<in> set xs \<Longrightarrow> Suc (length (removeAll x xs)) = length xs"
  by (simp add: distinct_remove1_removeAll [symmetric] length_remove1) (cases xs; simp)

lemma passed_ok: "waiters_ok cs s \<Longrightarrow> i \<in> set (polling s) \<Longrightarrow> waiters_ok cs (passed_check cs i s)"
  using length_removeAll [of "polling s" i]
  by (auto simp: waiters_ok_def passed_check_def distinct_removeAll)

lemma received_ok: "waiters_ok cs s \<Longrightarrow> channel s \<noteq> [] \<Longrightarrow> waiters_ok cs (received s)"
  by (cases "channel s") (auto simp: waiters_ok_def received_def)

lemma wait_step_ok: "wait_step cs s t \<Longrightarrow> waiters_ok cs s \<Longrightarrow> waiters_ok cs t"
  by (auto elim!: wait_stepE intro: passed_ok received_ok)

lemma wait_steps_ok: "wait_steps cs s t \<Longrightarrow> waiters_ok cs s \<Longrightarrow> waiters_ok cs t"
  by (induction rule: rtranclp_induct) (auto intro: wait_step_ok)

definition work_left :: "waiters \<Rightarrow> nat" where
  "work_left s = 2 * length (polling s) + length (channel s)"

lemma wait_step_work: "wait_step cs s t \<Longrightarrow> waiters_ok cs s \<Longrightarrow> Suc (work_left t) = work_left s"
  using length_removeAll [of "polling s"]
  by (auto elim!: wait_stepE simp: work_left_def passed_check_def received_def waiters_ok_def neq_Nil_conv)
    fastforce

lemma wait_steps_work: "(wait_step cs ^^ k) s t \<Longrightarrow> waiters_ok cs s \<Longrightarrow> work_left t + k = work_left s"
proof (induction k arbitrary: s)
  case (Suc k)
  from Suc.prems(1) obtain u where "wait_step cs s u" "(wait_step cs ^^ k) u t"
    by (rule relpowp_Suc_E2)
  with Suc show ?case
    using wait_step_ok wait_step_work by fastforce
qed simp

lemma wait_step_possible:
  assumes "waiters_ok cs s" "0 < remaining s"
  shows "\<exists>t. wait_step cs s t"
proof (cases "polling s")
  case Nil
  with assms have "channel s \<noteq> []"
    by (auto simp: waiters_ok_def)
  with assms(2) show ?thesis
    by (blast intro: wait_step.receive)
next
  case (Cons i js)
  then have "i \<in> set (polling s)"
    by simp
  then show ?thesis
    by (blast intro: wait_step.pass)
qed

section \<open>The turns implement the transition system\<close>

definition ready_reply :: "reply \<Rightarrow> bool" where
  "ready_reply r \<longleftrightarrow> failure r = None \<and> (''Ready'', ''True'') \<in> set (conditions r)"

text \<open>Between two histories the query was made and the answer was that the object is ready.\<close>

definition answered_ready :: "shell \<Rightarrow> call list \<Rightarrow> call list \<Rightarrow> call \<Rightarrow> bool" where
  "answered_ready sh h0 h1 q \<longleftrightarrow>
     (\<exists>h k g. h1 = h @ q # k \<and> prefix h0 h \<and> ready_reply (fst (sh h q g)))"

lemma answered_later:
  "answered_ready sh h1 h2 q \<Longrightarrow> prefix h0 h1 \<Longrightarrow> prefix h2 h3 \<Longrightarrow> answered_ready sh h0 h3 q"
  unfolding answered_ready_def by (fastforce elim: prefixE intro: prefix_order.trans)

lemma has_ready_iff: "has_ready cs \<longleftrightarrow> (''Ready'', ''True'') \<in> set cs"
  by (induction cs rule: has_ready.induct) auto

lemma object_ready_Ok:
  "object_ready sh q w = (Ok b, v) \<Longrightarrow> trace v = trace w @ [q] \<and> (b \<longleftrightarrow> ready_reply (fst (sh (trace w) q (fs w))))"
  by (auto simp: object_ready_def run_simps ready_reply_def has_ready_iff split: option.splits dest!: extern_Ok)

lemma object_ready_no_Err: "object_ready sh q w \<noteq> (Err e, v)"
  by (auto simp: object_ready_def seq_def extern_def Let_def return_def split: prod.splits res.splits option.splits)

text \<open>What a run of the turns from \<open>s\<close> has done, when it began after the calls \<open>h\<close>.\<close>

definition turns_done :: "shell \<Rightarrow> ready_check list \<Rightarrow> err \<Rightarrow> call list \<Rightarrow> waiters \<Rightarrow> unit res \<Rightarrow> world \<Rightarrow> bool" where
  "turns_done sh cs why h s r v \<longleftrightarrow> (\<exists>t. wait_steps cs s t \<and> prefix h (trace v) \<and>
     (\<forall>i \<in> set (polling s) - set (polling t). answered_ready sh h (trace v) (query (cs ! i))) \<and>
     (r = Ok () \<longrightarrow> remaining t = 0) \<and> (\<forall>e. r = Err e \<longrightarrow> e = pending_error why cs t \<and> 0 < remaining t))"

lemma turns_done_here:
  "\<lbrakk>prefix h (trace v); r = Ok () \<Longrightarrow> remaining s = 0; \<And>e. r = Err e \<Longrightarrow> e = pending_error why cs s \<and> 0 < remaining s\<rbrakk> \<Longrightarrow>
     turns_done sh cs why h s r v"
  unfolding turns_done_def by (intro exI [of _ s]) auto

lemma turns_done_step:
  assumes "turns_done sh cs why h s' r v" "wait_steps cs s s'" "prefix h0 h"
    and "\<And>i. i \<in> set (polling s) \<Longrightarrow> i \<notin> set (polling s') \<Longrightarrow> answered_ready sh h0 h (query (cs ! i))"
  shows "turns_done sh cs why h0 s r v"
proof -
  from assms(1) obtain t where t: "wait_steps cs s' t" "prefix h (trace v)"
    "\<forall>i \<in> set (polling s') - set (polling t). answered_ready sh h (trace v) (query (cs ! i))"
    "r = Ok () \<longrightarrow> remaining t = 0" "\<forall>e. r = Err e \<longrightarrow> e = pending_error why cs t \<and> 0 < remaining t"
    unfolding turns_done_def by blast
  have "answered_ready sh h0 (trace v) (query (cs ! i))" if i: "i \<in> set (polling s) - set (polling t)" for i
  proof (cases "i \<in> set (polling s')")
    case True
    with i t(3) assms(3) show ?thesis
      by (blast intro: answered_later)
  next
    case False
    with i assms(4) t(2) show ?thesis
      by (blast intro: answered_later)
  qed
  with t assms(2,3) show ?thesis
    unfolding turns_done_def by (blast intro: rtranclp_trans prefix_order.trans)
qed

lemma object_ready_calls:
  "object_ready sh q w = (r, v) \<Longrightarrow> prefix (trace w) (trace v)"
  by (auto simp: object_ready_def seq_def extern_def Let_def return_def
      split: prod.splits res.splits option.splits if_splits dest!: tick_run)

lemma turns_done_probe:
  assumes "object_ready sh (query (cs ! i)) w = (Ok b, x)" "i \<in> set (polling s)"
    and "turns_done sh cs why (trace x) (if b then passed_check cs i s else s) r v"
  shows "turns_done sh cs why (trace w) s r v"
proof (rule turns_done_step [OF assms(3)])
  show "wait_steps cs s (if b then passed_check cs i s else s)"
    using assms(2) by (auto intro: wait_step.pass)
  show "prefix (trace w) (trace x)"
    using object_ready_calls [OF assms(1)] .
  fix j
  assume j: "j \<in> set (polling s)" "j \<notin> set (polling (if b then passed_check cs i s else s))"
  then have "b" "j = i"
    by (auto simp: passed_check_def split: if_splits)
  with object_ready_Ok [OF assms(1)] show "answered_ready sh (trace w) (trace x) (query (cs ! j))"
    unfolding answered_ready_def by auto
qed

lemma turns_done_polled:
  assumes run: "seq (object_ready sh (query (cs ! i)))
      (\<lambda>b. wait_turns sh cs why us (if b then passed_check cs i s else s)) w = (r, v)"
    and i: "i \<in> set (polling s)" and ok: "waiters_ok cs s"
    and IH: "\<And>s w. wait_turns sh cs why us s w = (r, v) \<Longrightarrow> waiters_ok cs s \<Longrightarrow> turns_done sh cs why (trace w) s r v"
  shows "turns_done sh cs why (trace w) s r v"
  using run
proof (cases rule: seq_cases)
  case (through b x)
  have "waiters_ok cs (if b then passed_check cs i s else s)"
    using i ok by (auto intro: passed_ok)
  with turns_done_probe [OF through(1) i] IH [OF through(2)] show ?thesis
    by blast
next
  case (stopped r')
  have "r \<noteq> Err e" for e
    using run stopped(1,2) object_ready_no_Err by (auto simp: seq_def split: res.splits)
  with object_ready_calls [OF stopped(1)] stopped(3) show ?thesis
    by (intro turns_done_here) auto
qed

lemma turns_done_received:
  assumes "remaining s \<noteq> 0" "waiters_ok cs s"
    and IH: "\<And>s w. wait_turns sh cs why us s w = (r, v) \<Longrightarrow> waiters_ok cs s \<Longrightarrow> turns_done sh cs why (trace w) s r v"
    and run: "wait_turns sh cs why us (if channel s = [] then s else received s) w = (r, v)"
  shows "turns_done sh cs why (trace w) s r v"
proof -
  let ?s = "if channel s = [] then s else received s"
  have "wait_steps cs s ?s" "waiters_ok cs ?s"
    using assms(1,2) by (auto intro: wait_step.receive received_ok)
  moreover have "polling ?s = polling s"
    by (simp add: received_def)
  ultimately show ?thesis
    by (intro turns_done_step [OF IH [OF run]]) simp_all
qed

lemma wait_turns_done:
  "wait_turns sh cs why ts s w = (r, v) \<Longrightarrow> waiters_ok cs s \<Longrightarrow> turns_done sh cs why (trace w) s r v"
proof (induction ts arbitrary: s w)
  case Nil
  then show ?case
    by (intro turns_done_here) (auto simp: wait_turns.simps [of _ _ _ "[]"] return_def raise_def split: if_splits)
next
  case (Cons u us)
  note unfold = wait_turns.simps [of _ _ _ "x # us" for x]
  show ?case
  proof (cases "remaining s = 0 \<or> u = Expire")
    case True
    with Cons.prems(1) show ?thesis
      by (intro turns_done_here) (auto simp: unfold return_def raise_def split: if_splits)
  next
    case False
    then consider "u = Receive" | i where "u = Probe i" "i \<in> set (polling s)" | i where "u = Probe i" "i \<notin> set (polling s)"
      by (cases u) auto
    then show ?thesis
    proof cases
      case 1
      with False Cons.prems(1) have "wait_turns sh cs why us (if channel s = [] then s else received s) w = (r, v)"
        by (simp add: unfold)
      then show ?thesis
        using False by (intro turns_done_received [OF _ Cons.prems(2) Cons.IH]) simp_all
    next
      case (2 i)
      with False Cons.prems show ?thesis
        by (intro turns_done_polled [OF _ 2(2) Cons.prems(2) Cons.IH]) (simp_all add: unfold)
    next
      case (3 i)
      with False Cons show ?thesis
        by (simp add: unfold)
    qed
  qed
qed

lemma wait_turns_run:
  assumes "wait_turns sh cs why ts s w = (r, v)" and "waiters_ok cs s"
  shows "\<exists>t. wait_steps cs s t \<and> prefix (trace w) (trace v) \<and>
    (\<forall>i \<in> set (polling s) - set (polling t). answered_ready sh (trace w) (trace v) (query (cs ! i))) \<and>
    (r = Ok () \<longrightarrow> remaining t = 0) \<and> (\<forall>e. r = Err e \<longrightarrow> e = pending_error why cs t \<and> 0 < remaining t)"
  using wait_turns_done [OF assms] unfolding turns_done_def .

section \<open>What the waits respect\<close>

context files_rel
begin

lemma gu_wait_rounds:
  assumes "guarantees R (extern sh (readyz_call cl))"
  shows "guarantees R (wait_rounds sh cl pc why i lft)"
proof -
  have "R (fs w) (fs (snd (wait_rounds sh cl pc why i lft w)))" for w
    using assms
  proof (induction sh cl pc why i lft w rule: wait_rounds.induct)
    case (1 sh cl pc why i lft w)
    show ?case
    proof (cases "extern sh (readyz_call cl) w")
      case (Pair x v)
      have "R (fs w) (fs v)"
        by (rule guaranteesD [OF "1.prems" Pair])
      then show ?thesis
        using "1.IH" [OF Pair [symmetric] _ _ _ "1.prems"] Pair rel_trans
        by (auto simp: wait_rounds.simps [of _ _ _ _ i lft w] split: res.split option.split)
    qed
  qed
  then show ?thesis
    by (simp add: guarantees_def)
qed

lemma gu_object_ready: "guarantees R (extern sh q) \<Longrightarrow> guarantees R (object_ready sh q)"
  unfolding object_ready_def by (auto intro!: gu_rules split: option.split)

lemma gu_wait_turns:
  assumes "\<And>c. c \<in> set cs \<Longrightarrow> guarantees R (extern sh (query c))" and "set (polling s) \<subseteq> {..<length cs}"
  shows "guarantees R (wait_turns sh cs why ts s)"
  using assms(2)
proof (induction ts arbitrary: s)
  case Nil
  then show ?case
    by (auto simp: wait_turns.simps [of _ _ _ "[]"] intro: gu_rules)
next
  case (Cons t ts)
  have q: "guarantees R (object_ready sh (query (cs ! i)))" if "i \<in> set (polling s)" for i
    using that Cons.prems by (auto intro!: gu_object_ready assms(1))
  have p: "set (polling (passed_check cs i s)) \<subseteq> {..<length cs}" "set (polling (received s)) \<subseteq> {..<length cs}" for i
    using Cons.prems by (auto simp: passed_check_def received_def)
  show ?case
    using Cons.IH [OF Cons.prems] Cons.IH [OF p(1)] Cons.IH [OF p(2)] q
    by (auto simp: wait_turns.simps [of _ _ _ "t # ts"] intro!: gu_rules split: turn.split)
qed

lemma gu_WaitForControlPlane:
  assumes "\<And>c. c \<in> set (control_plane_checks cl node) \<Longrightarrow> guarantees R (extern sh (query c))"
  shows "guarantees R (WaitForControlPlane sh ts tc cl node)"
  unfolding WaitForControlPlane_def waitAllReady_def
  by (rule gu_wait_turns [OF assms]) (auto simp: start_waiters_def)

end

context calls_rel
begin

lemma re_wait_rounds:
  assumes "relates R (extern sh (readyz_call cl))"
  shows "relates R (wait_rounds sh cl pc why i lft)"
proof -
  have "R (trace w) (trace (snd (wait_rounds sh cl pc why i lft w)))" for w
    using assms
  proof (induction sh cl pc why i lft w rule: wait_rounds.induct)
    case (1 sh cl pc why i lft w)
    show ?case
    proof (cases "extern sh (readyz_call cl) w")
      case (Pair x v)
      have "R (trace w) (trace v)"
        by (rule relatesD [OF "1.prems" Pair])
      then show ?thesis
        using "1.IH" [OF Pair [symmetric] _ _ _ "1.prems"] Pair calls_trans
        by (auto simp: wait_rounds.simps [of _ _ _ _ i lft w] split: res.split option.split)
    qed
  qed
  then show ?thesis
    by (simp add: relates_def)
qed

lemma re_object_ready: "relates R (extern sh q) \<Longrightarrow> relates R (object_ready sh q)"
  unfolding object_ready_def by (auto intro!: re_rules split: option.split)

lemma re_wait_turns:
  assumes "\<And>c. c \<in> set cs \<Longrightarrow> relates R (extern sh (query c))" and "set (polling s) \<subseteq> {..<length cs}"
  shows "relates R (wait_turns sh cs why ts s)"
  using assms(2)
proof (induction ts arbitrary: s)
  case Nil
  then show ?case
    by (auto simp: wait_turns.simps [of _ _ _ "[]"] intro: re_rules)
next
  case (Cons t ts)
  have q: "relates R (object_ready sh (query (cs ! i)))" if "i \<in> set (polling s)" for i
    using that Cons.prems by (auto intro!: re_object_ready assms(1))
  have p: "set (polling (passed_check cs i s)) \<subseteq> {..<length cs}" "set (polling (received s)) \<subseteq> {..<length cs}" for i
    using Cons.prems by (auto simp: passed_check_def received_def)
  show ?case
    using Cons.IH [OF Cons.prems] Cons.IH [OF p(1)] Cons.IH [OF p(2)] q
    by (auto simp: wait_turns.simps [of _ _ _ "t # ts"] intro!: re_rules split: turn.split)
qed

lemma re_WaitForControlPlane:
  assumes "\<And>c. c \<in> set (control_plane_checks cl node) \<Longrightarrow> relates R (extern sh (query c))"
  shows "relates R (WaitForControlPlane sh ts tc cl node)"
  unfolding WaitForControlPlane_def waitAllReady_def
  by (rule re_wait_turns [OF assms]) (auto simp: start_waiters_def)

end

section \<open>Properties\<close>

text \<open>C13: the wait for the API server is bounded by the time that is left: it probes at most once more
  than there are intervals of two seconds in it, whatever the API server answers and however long the
  probes take, and makes no other call.  It succeeds only on a probe that succeeded, and its own error
  names why the context ended.\<close>

theorem WaitForAPIServer_bounded:
  "(\<exists>n \<le> fst tc div 2000 + 1. trace (snd (WaitForAPIServer sh pc tc cl w)) = trace w @ replicate n (readyz_call cl)) \<and>
   (case WaitForAPIServer sh pc tc cl w of
      (Ok _, v) \<Rightarrow> \<exists>h g r. trace v = h @ [readyz_call cl] \<and> sh h (readyz_call cl) g = (r, fs v) \<and> failure r = None
    | (Err e, v) \<Rightarrow> \<exists>l. e = not_ready (snd tc) l
    | _ \<Rightarrow> True)"
proof
  show "\<exists>n \<le> fst tc div 2000 + 1. trace (snd (WaitForAPIServer sh pc tc cl w)) = trace w @ replicate n (readyz_call cl)"
    using wait_rounds_calls [of "fst tc"] by (simp add: WaitForAPIServer_def poll_interval_def)
  show "case WaitForAPIServer sh pc tc cl w of
      (Ok _, v) \<Rightarrow> \<exists>h g r. trace v = h @ [readyz_call cl] \<and> sh h (readyz_call cl) g = (r, fs v) \<and> failure r = None
    | (Err e, v) \<Rightarrow> \<exists>l. e = not_ready (snd tc) l
    | _ \<Rightarrow> True"
    using wait_rounds_Ok [of sh cl pc "snd tc" 0 "fst tc" w] wait_rounds_Err [of sh cl pc "snd tc" 0 "fst tc" w]
    by (auto simp: WaitForAPIServer_def split: prod.split res.split)
qed

text \<open>C14: the wait succeeds when the API server becomes ready in time: if it answers from its k-th probe
  on, no probe takes longer than p, and there is time for k rounds, then the wait returns without an
  error.\<close>

theorem WaitForAPIServer_succeeds:
  assumes "\<And>h f. k \<le> count_list h (readyz_call cl) \<Longrightarrow> failure (fst (sh h (readyz_call cl) f)) = None"
    and "\<And>j. probe_time pc j \<le> p" and "sched w = []" and "k * (p + 2000) < fst tc"
  shows "fst (WaitForAPIServer sh pc tc cl w) = Ok ()"
proof -
  have "(k - count_list (trace w) (readyz_call cl)) * (p + poll_interval) \<le> k * (p + 2000)"
    by (simp add: poll_interval_def)
  with assms(4) have "(k - count_list (trace w) (readyz_call cl)) * (p + poll_interval) < fst tc"
    by linarith
  from wait_rounds_live [of k cl sh pc p w "fst tc" "snd tc" 0, OF assms(1,2,3) this] show ?thesis
    by (simp add: WaitForAPIServer_def)
qed

definition slow_server :: shell where
  "slow_server h c f =
     (\<lparr>failure = (if count_list h c < 3 then Some (Text ''connection refused'') else None),
       stdout = '''', stderr = '''', conditions = []\<rparr>, f)"

lemma WaitForAPIServer_succeeds_witness:
  "fst (WaitForAPIServer slow_server \<lparr>probe_time = (\<lambda>_. 100), tie = (\<lambda>_. False)\<rparr> (180000, deadline_exceeded) ''c''
     (quiet \<lparr>ents = [], stamps = []\<rparr>)) = Ok ()"
  by (rule WaitForAPIServer_succeeds [where k = 3 and p = 100]) (auto simp: slow_server_def quiet_def)


definition two_checks :: "ready_check list" where
  "two_checks = [\<lparr>check_name = ''a'', query = [Word ''a'']\<rparr>, \<lparr>check_name = ''b'', query = [Word ''b'']\<rparr>]"


definition healthy_queries :: "string \<Rightarrow> string \<Rightarrow> call set" where
  "healthy_queries cl node = {node_query cl node, pod_query cl (''kube-apiserver-'' @ node),
     pod_query cl (''kube-controller-manager-'' @ node), pod_query cl (''kube-scheduler-'' @ node)}"

lemma plane_run:
  assumes "WaitForControlPlane sh ts tc cl node w = (r, v)"
  obtains t where "waiters_ok (control_plane_checks cl node) t"
    "\<forall>i \<in> set (polling (start_waiters (control_plane_checks cl node))) - set (polling t).
       answered_ready sh (trace w) (trace v) (query (control_plane_checks cl node ! i))"
    "r = Ok () \<longrightarrow> remaining t = 0"
    "\<forall>e. r = Err e \<longrightarrow> e = pending_error (snd tc) (control_plane_checks cl node) t \<and> 0 < remaining t"
  using wait_turns_run [OF assms [unfolded WaitForControlPlane_def waitAllReady_def] start_waiters_ok]
    wait_steps_ok [OF _ start_waiters_ok] by blast

lemma plane_ready:
  assumes "WaitForControlPlane sh ts tc cl node w = (Ok (), v)"
  shows "\<forall>q \<in> healthy_queries cl node. answered_ready sh (trace w) (trace v) q"
proof -
  let ?cs = "control_plane_checks cl node"
  from assms obtain t where "waiters_ok ?cs t"
    "\<forall>i \<in> set (polling (start_waiters ?cs)) - set (polling t). answered_ready sh (trace w) (trace v) (query (?cs ! i))"
    "remaining t = 0"
    by (rule plane_run) blast
  then have "answered_ready sh (trace w) (trace v) (query (?cs ! i))" if "i < length ?cs" for i
    using that by (simp add: start_waiters_def waiters_ok_def)
  then have "\<forall>q \<in> query ` set ?cs. answered_ready sh (trace w) (trace v) q"
    by (fastforce simp: in_set_conv_nth)
  moreover have "query ` set ?cs = healthy_queries cl node"
    by (simp add: control_plane_checks_def healthy_queries_def)
  ultimately show ?thesis
    by simp
qed


definition ready_server :: shell where
  "ready_server h c f = (\<lparr>failure = None, stdout = '''', stderr = '''', conditions = [(''Ready'', ''True'')]\<rparr>, f)"

definition sample_turns :: "turn list" where
  "sample_turns = [Probe 2, Probe 0, Receive, Probe 3, Probe 1, Receive, Receive, Receive]"

definition sample_wait :: "unit res \<times> world" where
  "sample_wait = WaitForControlPlane ready_server sample_turns (5, deadline_exceeded) ''c'' ''n'' (quiet \<lparr>ents = [], stamps = []\<rparr>)"


end
