(* ===== verification/Ostree.thy ===== *)
theory Ostree
imports Frames Json Paths
begin

text \<open>
  internal/ostree/ostree.go: whether the system runs an ostree deployment, and the deployment ids
  that rpm-ostree reports.  The program rpm-ostree is the parameter \<open>sh\<close>; its output is decoded here
  as encoding/json does it.
\<close>

section \<open>Decoding the status\<close>

record deployment =
  dep_id :: string
  booted :: bool

definition zero_deployment :: deployment where
  "zero_deployment = \<lparr>dep_id = '''', booted = False\<rparr>"

text \<open>Null leaves a field as it is, a value of another type makes the whole decoding fail, unknown
  keys are skipped, and of equal keys the last one counts.\<close>

fun deployment_members :: "(string \<times> json) list \<Rightarrow> deployment \<Rightarrow> deployment option" where
  "deployment_members [] d = Some d"
| "deployment_members ((k, j) # ms) d =
     (if fold_key k = ''id'' then
        (case j of JStr s \<Rightarrow> deployment_members ms (d\<lparr>dep_id := s\<rparr>) | JNull \<Rightarrow> deployment_members ms d | _ \<Rightarrow> None)
      else if fold_key k = ''booted'' then
        (case j of JBool b \<Rightarrow> deployment_members ms (d\<lparr>booted := b\<rparr>) | JNull \<Rightarrow> deployment_members ms d | _ \<Rightarrow> None)
      else deployment_members ms d)"

definition decode_deployment :: "json \<Rightarrow> deployment option" where
  "decode_deployment j =
     (case j of JNull \<Rightarrow> Some zero_deployment | JObj ms \<Rightarrow> deployment_members ms zero_deployment | _ \<Rightarrow> None)"

fun status_members :: "(string \<times> json) list \<Rightarrow> deployment list \<Rightarrow> deployment list option" where
  "status_members [] ds = Some ds"
| "status_members ((k, j) # ms) ds =
     (if fold_key k = ''deployments'' then
        (case j of JArr js \<Rightarrow> (case those (map decode_deployment js) of Some es \<Rightarrow> status_members ms es | None \<Rightarrow> None)
         | JNull \<Rightarrow> status_members ms [] | _ \<Rightarrow> None)
      else status_members ms ds)"

definition unmarshal_status :: "string \<Rightarrow> err + deployment list" where
  "unmarshal_status b =
     (case parse_json b of None \<Rightarrow> Inl (Text ''invalid JSON'')
      | Some JNull \<Rightarrow> Inr []
      | Some (JObj ms) \<Rightarrow> (case status_members ms [] of Some ds \<Rightarrow> Inr ds
          | None \<Rightarrow> Inl (Text ''json: cannot unmarshal value into Go struct field''))
      | Some _ \<Rightarrow> Inl (Text ''json: cannot unmarshal value into Go value''))"

section \<open>Operations\<close>

definition IsOSTree :: "bool io" where
  "IsOSTree =
     seq (attempt (stat ostree_booted_marker)) (\<lambda>r. case r of
         Inr _ \<Rightarrow> return True
       | Inl e \<Rightarrow> if is_not_exist e then return False
                  else raise (Wrap (''stat '' @ path_text ostree_booted_marker @ '': '') e ''''))"

definition status_call :: call where
  "status_call = [Word ''rpm-ostree'', Word ''status'', Word ''--json'']"

definition allDeployments :: "shell \<Rightarrow> deployment list io" where
  "allDeployments sh =
     seq (extern sh status_call) (\<lambda>r. case failure r of
         Some e \<Rightarrow> raise (Text (''rpm-ostree status: '' @ err_text e @ '': '' @ stderr r))
       | None \<Rightarrow> (case unmarshal_status (stdout r) of
             Inl e \<Rightarrow> raise (Wrap ''parse rpm-ostree status: '' e '''')
           | Inr ds \<Rightarrow> return ds))"

fun first_booted :: "deployment list \<Rightarrow> string option" where
  "first_booted [] = None"
| "first_booted (d # ds) = (if booted d then Some (dep_id d) else first_booted ds)"

definition BootedDeploymentID :: "shell \<Rightarrow> string io" where
  "BootedDeploymentID sh =
     seq IsOSTree (\<lambda>ok.
       if \<not> ok then return ''''
       else seq (allDeployments sh) (\<lambda>deps. case first_booted deps of
           Some i \<Rightarrow> return i
         | None \<Rightarrow> raise (Text ''no booted deployment in rpm-ostree status output'')))"

definition AllDeploymentIDs :: "shell \<Rightarrow> string list io" where
  "AllDeploymentIDs sh =
     seq IsOSTree (\<lambda>ok. if \<not> ok then return [] else seq (allDeployments sh) (\<lambda>deps. return (map dep_id deps)))"

section \<open>What they return\<close>

lemma IsOSTree_Ok: "IsOSTree w = (Ok b, v) \<Longrightarrow> fs v = fs w \<and> (b \<longleftrightarrow> look w ostree_booted_marker \<noteq> None)"
  by (auto simp: IsOSTree_def run_simps split: if_splits dest!: stat_Ok stat_Err)

lemma IsOSTree_unchanged [guar]: "guarantees unchanged IsOSTree"
  unfolding IsOSTree_def by (intro guar) (auto split: sum.split intro!: guar)

lemma allDeployments_Ok:
  assumes "allDeployments sh w = (Ok ds, v)"
  shows "\<exists>h r. sh h status_call (fs w) = (r, fs v) \<and> failure r = None \<and> unmarshal_status (stdout r) = Inr ds"
proof -
  from assms obtain r u where e: "extern sh status_call w = (Ok r, u)"
    and rest: "(case failure r of
         Some e \<Rightarrow> raise (Text (''rpm-ostree status: '' @ err_text e @ '': '' @ stderr r))
       | None \<Rightarrow> (case unmarshal_status (stdout r) of
             Inl e \<Rightarrow> raise (Wrap ''parse rpm-ostree status: '' e '''')
           | Inr ds \<Rightarrow> return ds)) u = (Ok ds, v)"
    unfolding allDeployments_def by (auto simp: run_simps)
  then show ?thesis
    using extern_Ok [OF e] by (auto simp: run_simps split: option.splits sum.splits)
qed

lemma first_booted_Some: "first_booted ds = Some i \<longleftrightarrow>
    (\<exists>xs d ys. ds = xs @ d # ys \<and> (\<forall>x \<in> set xs. \<not> booted x) \<and> booted d \<and> i = dep_id d)"
proof (induction ds)
  case (Cons a ds)
  show ?case
  proof (cases "booted a")
    case True
    then show ?thesis
      by (auto simp: Cons_eq_append_conv intro: exI [of _ "[]"])
  next
    case False
    with Cons show ?thesis
      by (auto simp: Cons_eq_append_conv)
        (metis append_Cons set_ConsD)+
  qed
qed simp

definition status_shell :: "string \<Rightarrow> shell" where
  "status_shell out = (\<lambda>_ _ f. (\<lparr>failure = None, stdout = out, stderr = '''', conditions = []\<rparr>, f))"

definition sample_status :: string where
  "sample_status =
     CHR 0x7B # quote_string ''deployments'' @ CHR 0x3A # CHR 0x5B
       # CHR 0x7B # quote_string ''id'' @ CHR 0x3A # quote_string ''new'' @ [CHR 0x7D, CHR 0x2C]
       @ CHR 0x7B # quote_string ''id'' @ CHR 0x3A # quote_string ''old'' @ CHR 0x2C
       # quote_string ''booted'' @ CHR 0x3A # ''true'' @ [CHR 0x7D, CHR 0x5D, CHR 0x7D]"

definition ostree_files :: files where
  "ostree_files = \<lparr>ents = [([], Dir), ([''run''], Dir), (ostree_booted_marker, File '''')], stamps = []\<rparr>"

text \<open>C33: the id BootedDeploymentID returns: empty on a system without the ostree marker, and
  otherwise the id of the first deployment marked as booted in the status that rpm-ostree printed
  with success.\<close>

theorem BootedDeploymentID_spec:
  assumes "BootedDeploymentID sh w = (Ok i, v)"
  shows "if look w ostree_booted_marker = None then i = '''' \<and> fs v = fs w
    else \<exists>h r xs d ys. sh h status_call (fs w) = (r, fs v) \<and> failure r = None \<and>
      unmarshal_status (stdout r) = Inr (xs @ d # ys) \<and> (\<forall>x \<in> set xs. \<not> booted x) \<and> booted d \<and> i = dep_id d"
proof -
  from assms obtain ok u where ok: "IsOSTree w = (Ok ok, u)"
    and rest: "(if \<not> ok then return ''''
       else seq (allDeployments sh) (\<lambda>deps. case first_booted deps of
           Some i \<Rightarrow> return i
         | None \<Rightarrow> raise (Text ''no booted deployment in rpm-ostree status output''))) u = (Ok i, v)"
    by (auto simp: BootedDeploymentID_def run_simps)
  note marker = IsOSTree_Ok [OF ok]
  show ?thesis
  proof (cases ok)
    case True
    with rest obtain ds where "allDeployments sh u = (Ok ds, v)" and i: "first_booted ds = Some i"
      by (auto simp: run_simps split: option.splits)
    from allDeployments_Ok [OF this(1)] marker i True show ?thesis
      unfolding first_booted_Some by auto blast
  qed (use rest marker in \<open>auto simp: run_simps\<close>)
qed

lemma BootedDeploymentID_spec_witness:
  "\<exists>xs d ys. unmarshal_status sample_status = Inr (xs @ d # ys) \<and> booted d \<and> dep_id d = ''old''"
proof -
  have "fst (BootedDeploymentID (status_shell sample_status) (quiet ostree_files)) = Ok ''old''"
    by code_simp
  then obtain v where "BootedDeploymentID (status_shell sample_status) (quiet ostree_files) = (Ok ''old'', v)"
    by (cases "BootedDeploymentID (status_shell sample_status) (quiet ostree_files)") auto
  moreover have "look (quiet ostree_files) ostree_booted_marker \<noteq> None"
    by code_simp
  ultimately show ?thesis
    using BootedDeploymentID_spec [of "status_shell sample_status" "quiet ostree_files" "''old''" v]
    by (auto simp: status_shell_def) metis
qed

end
