(* ===== verification/Backup_Restore.thy ===== *)
theory Backup_Restore
imports Backup_Snapshot
begin

text \<open>
  Restore: what the live trees hold after a success, what a failure or a crash can leave, and that
  a backup is never changed.
\<close>

section \<open>A tree that can only lose entries\<close>

definition shrinks :: "path set \<Rightarrow> files \<Rightarrow> files \<Rightarrow> bool" where
  "shrinks A f g \<longleftrightarrow> (\<forall>q \<in> A. lookup g q = lookup f q \<or> lookup g q = None)"

interpretation shrink: files_rel "shrinks A" for A
proof
  show "shrinks A f f" for f
    by (simp add: shrinks_def)
  show "shrinks A f g \<Longrightarrow> shrinks A g h \<Longrightarrow> shrinks A f h" for f g h
    unfolding shrinks_def by metis
qed

lemmas [guar] = shrink.gu_rules

lemma shrinks_remove_all [guar]: "guarantees (shrinks A) (remove_all p)"
  unfolding remove_all_def
  by (rule shrink.gu_syscall) (auto simp: shrinks_def lookup_rm_tree)

lemma shrinks_outside: "same_outside B f g \<Longrightarrow> A \<inter> B = {} \<Longrightarrow> shrinks A f g"
  by (auto simp: shrinks_def same_outside_def)

lemma guarantees_shrinks: "guarantees (same_outside B) m \<Longrightarrow> A \<inter> B = {} \<Longrightarrow> guarantees (shrinks A) m"
  by (auto simp: guarantees_def intro: shrinks_outside)

section \<open>One tree\<close>

text \<open>What restoreDir does before the rename when the backup has the tree.\<close>

definition stage_tree :: "shell \<Rightarrow> path \<Rightarrow> path \<Rightarrow> path \<Rightarrow> unit io" where
  "stage_tree sh src dst staged =
     after (mkdir_all (dirname dst))
      (after (remove_all staged)
        (after (on_err (copyTree sh src staged) (\<lambda>e. after (ignore (remove_all staged)) (raise e)))
          (on_err (remove_all dst) (\<lambda>e. after (ignore (remove_all staged)) (raise e)))))"

lemma restoreDir_stage:
  "restoreDir sh src (p @ [n]) =
     seq (attempt (stat src)) (\<lambda>r. case r of
         Inl e \<Rightarrow> if is_not_exist e
           then wrapped (''remove live '' @ path_text (p @ [n]) @ '': '') (remove_all (p @ [n]))
           else raise e
       | Inr _ \<Rightarrow> after (stage_tree sh src (p @ [n]) (p @ [n @ ''.restoring'']))
           (wrapped (''rename '' @ path_text (p @ [n @ ''.restoring'']) @ '' -> '' @ path_text (p @ [n]) @ '': '')
             (rename (p @ [n @ ''.restoring'']) (p @ [n]))))"
  unfolding restoreDir_def stage_tree_def add_suffix_snoc Let_def after_assoc ..

definition tree_zone :: "path \<Rightarrow> string \<Rightarrow> path set" where
  "tree_zone p n = above p \<union> below (p @ [n]) \<union> below (p @ [n @ ''.restoring''])"

lemma tree_zone_parts:
  "above p \<subseteq> tree_zone p n" "below (p @ [n]) \<subseteq> tree_zone p n" "below (p @ [n @ ''.restoring'']) \<subseteq> tree_zone p n"
  by (auto simp: tree_zone_def)

lemma outside_stage [guar]:
  assumes "cp_contract sh"
  shows "guarantees (same_outside (tree_zone p n)) (stage_tree sh src (p @ [n]) (p @ [n @ ''.restoring'']))"
  unfolding stage_tree_def dirname_snoc by (intro guar assms tree_zone_parts)

lemma wf_stage [guar]:
  assumes "cp_contract sh"
  shows "guarantees keeps_wf (stage_tree sh src (p @ [n]) (p @ [n @ ''.restoring'']))"
  unfolding stage_tree_def by (intro guar assms) simp_all

lemma outside_restoreDir [guar]:
  assumes "cp_contract sh"
  shows "guarantees (same_outside (tree_zone p n)) (restoreDir sh src (p @ [n]))"
  unfolding restoreDir_stage using assms
  by (intro guar) (auto split: sum.split intro!: guar tree_zone_parts)

lemma wf_restoreDir [guar]:
  assumes "cp_contract sh"
  shows "guarantees keeps_wf (restoreDir sh src (p @ [n]))"
  unfolding restoreDir_stage using assms
  by (intro guar) (auto split: sum.split intro!: guar)

lemma shrinks_stage:
  assumes "cp_contract sh"
  shows "guarantees (shrinks (below (p @ [n]))) (stage_tree sh src (p @ [n]) (p @ [n @ ''.restoring'']))"
proof -
  have a: "guarantees (shrinks (below (p @ [n]))) (mkdir_all p)"
    by (rule guarantees_shrinks [OF outside_mkdir_all]) (auto simp: prefix_def)
  have b: "guarantees (shrinks (below (p @ [n]))) (copyTree sh src (p @ [n @ ''.restoring'']))"
    by (rule guarantees_shrinks [OF outside_copies(1) [OF assms]]) (auto simp: prefix_def)
  show ?thesis
    unfolding stage_tree_def dirname_snoc by (intro guar a b)
qed

lemma recover_Ok: "on_err m (\<lambda>e. after c (raise e)) w = (Ok (), v) \<longleftrightarrow> m w = (Ok (), v)"
  by (auto simp: run_simps)

lemma stage_tree_Ok:
  assumes cp: "cp_contract sh" and run: "stage_tree sh src (p @ [n]) (p @ [n @ ''.restoring'']) w = (Ok (), v)"
    and wf: "wf_files (fs w)" and apart: "below src \<inter> tree_zone p n = {}"
  shows "look v (p @ (n @ ''.restoring'') # q) = look w (src @ q)"
proof -
  let ?s = "p @ [n @ ''.restoring'']"
  from run obtain a b c where m: "mkdir_all p w = (Ok (), a)" and r: "remove_all ?s a = (Ok (), b)"
    and c: "copyTree sh src ?s b = (Ok (), c)" and d: "remove_all (p @ [n]) c = (Ok (), v)"
    unfolding stage_tree_def by (auto simp: run_simps recover_Ok)
  have ob: "same_outside (tree_zone p n) (fs w) (fs b)"
    by (rule outside.rel_trans [OF guaranteesD [OF outside_mkdir_all [OF tree_zone_parts(1)] m]
          guaranteesD [OF outside_remove_all [OF tree_zone_parts(3)] r]])
  have "guarantees keeps_wf (remove_all ?s)"
    by (intro guar) simp
  from guaranteesD [OF this r] have wfb: "wf_files (fs b)"
    using guaranteesD [OF wf_mkdir_all m] wf by (simp add: keeps_wf_def)
  have wfa: "wf_files (fs a)"
    using guaranteesD [OF wf_mkdir_all m] wf by (simp add: keeps_wf_def)
  have "look b ?s = None"
    using remove_all_Ok [OF r] by auto
  moreover have "\<not> prefix src ?s"
    using apart by (auto simp: tree_zone_def)
  ultimately have "look c (?s @ q) = look b (src @ q)"
    using copyTree_Ok [OF cp c wfb] by simp
  moreover have "look v (?s @ q) = look c (?s @ q)"
    using remove_all_Ok [OF d] by auto
  moreover have "look b (src @ q) = look w (src @ q)"
    by (rule same_outsideD [OF ob]) (use apart in \<open>simp add: disjoint_iff\<close>)
  ultimately show ?thesis
    by simp
qed

text \<open>Every outcome of restoreDir: the tree has lost entries at most, or it is the one of the
  backup.\<close>

definition old_or_new :: "path \<Rightarrow> path \<Rightarrow> files \<Rightarrow> unit res \<Rightarrow> files \<Rightarrow> bool" where
  "old_or_new src dst f r g \<longleftrightarrow> shrinks (below dst) f g \<and> r \<noteq> Ok () \<or>
     (\<forall>q. lookup g (dst @ q) = lookup f (src @ q)) \<and> r = Ok ()"

lemma remove_live_cases:
  assumes "wrapped s (remove_all dst) w = (r, v)" and wf: "wf_files (fs w)" and none: "look w src = None"
  shows "old_or_new src dst (fs w) r (fs v)"
proof (cases "r = Ok ()")
  case True
  with assms(1) have "remove_all dst w = (Ok (), v)"
    by (simp add: run_simps)
  from remove_all_Ok [OF this] have "look v (dst @ q) = None" for q
    using wf_below_absent [OF wf, of dst "dst @ q"] by auto
  moreover have "look w (src @ q) = None" for q
    by (rule wf_below_absent [OF wf none]) simp
  ultimately show ?thesis
    using True by (simp add: old_or_new_def)
next
  case False
  have "guarantees (shrinks (below dst)) (wrapped s (remove_all dst))"
    by (intro guar)
  from guaranteesD [OF this assms(1)] False show ?thesis
    by (simp add: old_or_new_def)
qed

lemma swap_tree_cases:
  assumes cp: "cp_contract sh" and wf: "wf_files (fs w)" and apart: "below src \<inter> tree_zone p n = {}"
    and run: "after (stage_tree sh src (p @ [n]) (p @ [n @ ''.restoring'']))
      (wrapped s (rename (p @ [n @ ''.restoring'']) (p @ [n]))) w = (r, v)"
  shows "old_or_new src (p @ [n]) (fs w) r (fs v)"
  using run
proof (cases rule: after_cases)
  case (stopped r')
  with guaranteesD [OF shrinks_stage [OF cp] stopped(1)] show ?thesis
    by (simp add: old_or_new_def)
next
  case (through z)
  let ?s = "p @ [n @ ''.restoring'']"
  have np: "\<not> prefix ?s (p @ [n])" "\<not> prefix (p @ [n]) ?s" "?s \<noteq> p @ [n]"
    by simp_all
  obtain r' where "rename ?s (p @ [n]) z = (r', v)" and r': "r = Ok () \<longleftrightarrow> r' = Ok ()"
    using through(2) by (rule wrapped_cases)
  from this(1) np(3) show ?thesis
  proof (cases rule: rename_cases)
    case unmoved
    with guaranteesD [OF shrinks_stage [OF cp] through(1)] r' show ?thesis
      by (simp add: old_or_new_def)
  next
    case (moved t)
    have "look v ((p @ [n]) @ q) = look w (src @ q)" for q
      using lookup_move [OF np(1,2), of t "fs z" "p @ n # q"] stage_tree_Ok [OF cp through(1) wf apart] by (simp add: moved(6))
    with moved(1) r' show ?thesis
      by (simp add: old_or_new_def)
  qed
qed

lemma restoreDir_cases:
  assumes cp: "cp_contract sh" and run: "restoreDir sh src (p @ [n]) w = (r, v)"
    and wf: "wf_files (fs w)" and apart: "below src \<inter> tree_zone p n = {}"
  obtains (old) "shrinks (below (p @ [n])) (fs w) (fs v)" "r \<noteq> Ok ()"
    | (new) "\<And>q. look v (p @ n # q) = look w (src @ q)" "r = Ok ()"
proof -
  have "old_or_new src (p @ [n]) (fs w) r (fs v)"
    using run [unfolded restoreDir_stage]
  proof (cases rule: seq_cases)
    case (stopped r')
    have "guarantees unchanged (attempt (stat src))"
      by (intro guar)
    from guaranteesD [OF this stopped(1)] stopped(3) show ?thesis
      by (simp add: old_or_new_def unchanged_def shrink.rel_refl)
  next
    case (through x u)
    have u: "fs u = fs w"
      using through(1) by (auto simp: run_simps dest: stat_Ok stat_Err)
    show ?thesis
    proof (cases x)
      case (Inl e)
      show ?thesis
      proof (cases "is_not_exist e")
        case True
        with through Inl have "look u src = None"
          using stat_Err u by (auto simp: run_simps)
        from remove_live_cases [OF _ _ this] through(2) Inl True wf u show ?thesis
          by simp
      next
        case False
        with through(2) Inl u show ?thesis
          by (simp add: run_simps old_or_new_def shrink.rel_refl)
      qed
    next
      case (Inr y)
      from swap_tree_cases [OF cp _ apart through(2) [unfolded Inr, simplified]] wf u show ?thesis
        by simp
    qed
  qed
  then show thesis
    using that by (auto simp: old_or_new_def)
qed

section \<open>One file\<close>

lemma outside_replaceFile [guar]:
  assumes "cp_contract sh"
  shows "guarantees (same_outside (tree_zone p n)) (replaceFile sh src (p @ [n]))"
  unfolding replaceFile_def dirname_snoc add_suffix_snoc Let_def using assms
  by (intro guar tree_zone_parts) (auto intro!: guar)

lemma wf_replaceFile [guar]:
  assumes "cp_contract sh"
  shows "guarantees keeps_wf (replaceFile sh src (p @ [n]))"
  unfolding replaceFile_def dirname_snoc add_suffix_snoc Let_def using assms
  by (intro guar) (auto intro!: guar)

lemma drop_absent_Ok:
  "on_err (remove_one q) (\<lambda>e. if is_not_exist e then return () else raise (g e)) w = (Ok (), v) \<Longrightarrow>
     look v q = None \<and> (fs v = fs w \<or> (\<exists>t. fs v = rm_all q t (fs w)))"
  by (auto simp: run_simps split: if_splits dest!: remove_one_Ok remove_one_Err)

lemma replaceFile_Ok:
  assumes cp: "cp_contract sh" and run: "replaceFile sh src (p @ [n]) w = (Ok (), v)"
    and wf: "wf_files (fs w)" and apart: "src \<notin> tree_zone p n"
  shows "look v (p @ [n]) = look w src"
proof -
  let ?s = "p @ [n @ ''.restoring'']"
  from run obtain a b c where m: "mkdir_all p w = (Ok (), a)"
    and r: "on_err (remove_one ?s) (\<lambda>e. if is_not_exist e then return () else raise e) a = (Ok (), b)"
    and c: "copyFile sh src ?s b = (Ok (), c)" and d: "rename ?s (p @ [n]) c = (Ok (), v)"
    unfolding replaceFile_def dirname_snoc add_suffix_snoc Let_def
    by (auto simp: after_Ok recover_Ok simp del: on_err_Ok)
  have gr: "guarantees (same_outside (tree_zone p n)) (on_err (remove_one ?s) (\<lambda>e. if is_not_exist e then return () else raise e))"
    by (intro guar tree_zone_parts) (auto intro!: guar)
  have kr: "guarantees keeps_wf (on_err (remove_one ?s) (\<lambda>e. if is_not_exist e then return () else raise e))"
    by (intro guar) (auto intro!: guar)
  have ob: "same_outside (tree_zone p n) (fs w) (fs b)"
    by (rule outside.rel_trans [OF guaranteesD [OF outside_mkdir_all [OF tree_zone_parts(1)] m] guaranteesD [OF gr r]])
  have "wf_files (fs b)"
    using guaranteesD [OF wf_mkdir_all m] guaranteesD [OF kr r] wf by (simp add: keeps_wf_def)
  moreover have "look b ?s = None"
    using drop_absent_Ok [OF r] by simp
  ultimately obtain x where x: "look b src = Some (File x)" "look c ?s = Some (File x)"
    using copyFile_Ok [OF cp c] by auto
  have np: "\<not> prefix ?s (p @ [n])" "\<not> prefix (p @ [n]) ?s" "?s \<noteq> p @ [n]"
    by simp_all
  obtain t where v: "fs v = move ?s (p @ [n]) t (fs c)"
    using rename_Ok [OF d np(3)] by blast
  have "look v (p @ [n]) = Some (File x)"
    using lookup_move [OF np(1,2), of t "fs c" "p @ [n]"] x(2) by (simp add: v)
  also have "\<dots> = look w src"
    using same_outsideD [OF ob apart] x(1) by simp
  finally show ?thesis .
qed

definition kubelet_zone :: "string \<Rightarrow> path set" where
  "kubelet_zone x = tree_zone kubelet_dir x"

lemma outside_kubelet_file [guar]:
  assumes "cp_contract sh" "simple_name x"
  shows "guarantees (same_outside (kubelet_zone x)) (restore_kubelet_file sh src x)"
  unfolding restore_kubelet_file_def kubelet_zone_def joinp_simple [OF assms(2)] using assms(1)
  by (intro guar) (auto split: sum.split intro!: guar tree_zone_parts)

lemma wf_kubelet_file [guar]:
  assumes "cp_contract sh" "simple_name x"
  shows "guarantees keeps_wf (restore_kubelet_file sh src x)"
  unfolding restore_kubelet_file_def joinp_simple [OF assms(2)] using assms(1)
  by (intro guar) (auto split: sum.split intro!: guar)

lemma restore_kubelet_file_Ok:
  assumes cp: "cp_contract sh" and x: "simple_name x"
    and run: "restore_kubelet_file sh src x w = (Ok (), v)"
    and wf: "wf_files (fs w)" and apart: "src @ [''kubelet'', x] \<notin> kubelet_zone x"
  shows "look v (kubelet_dir @ [x]) = look w (src @ [''kubelet'', x])"
proof -
  have j: "joinp (joinp src ''kubelet'') x = src @ [''kubelet'', x]" "joinp kubelet_dir x = kubelet_dir @ [x]"
    using x by simp_all
  from run obtain r u where s: "attempt (stat (src @ [''kubelet'', x])) w = (Ok r, u)"
    and rest: "(case r of
         Inl e \<Rightarrow> if is_not_exist e
           then on_err (remove_one (kubelet_dir @ [x]))
                  (\<lambda>e. if is_not_exist e then return () else raise (Wrap (''remove live '' @ x @ '': '') e ''''))
           else raise e
       | Inr _ \<Rightarrow> wrapped (''restore kubelet/'' @ x @ '': '')
                    (replaceFile sh (src @ [''kubelet'', x]) (kubelet_dir @ [x]))) u = (Ok (), v)"
    unfolding restore_kubelet_file_def j seq_Ok by blast
  show ?thesis
  proof (cases r)
    case (Inl e)
    with s have "fs u = fs w" and e: "is_not_exist e \<Longrightarrow> look w (src @ [''kubelet'', x]) = None"
      using stat_Err by (auto simp: run_simps)
    with rest Inl show ?thesis
      using drop_absent_Ok [of "kubelet_dir @ [x]" _ u v] by (auto simp: raise_run split: if_splits)
  next
    case (Inr y)
    with s have u: "fs u = fs w"
      using stat_Ok by (cases y) (auto simp: run_simps)
    from rest Inr have "replaceFile sh (src @ [''kubelet'', x]) (kubelet_dir @ [x]) u = (Ok (), v)"
      by (simp add: run_simps)
    from replaceFile_Ok [OF cp this] u wf apart show ?thesis
      by (simp add: kubelet_zone_def)
  qed
qed

lemma restore_files_keep:
  assumes cp: "cp_contract sh" and run: "for_each xs (restore_kubelet_file sh src) w = (r, v)"
    and "\<And>y. y \<in> set xs \<Longrightarrow> simple_name y" "x \<notin> set xs" "\<And>y. y \<in> set xs \<Longrightarrow> x \<noteq> y @ ''.restoring''"
  shows "look v (kubelet_dir @ [x]) = look w (kubelet_dir @ [x])"
proof (rule same_outsideD)
  let ?Z = "\<Union>y \<in> set xs. kubelet_zone y"
  have "guarantees (same_outside ?Z) (restore_kubelet_file sh src y)" if "y \<in> set xs" for y
    by (rule guarantees_outside_mono [OF outside_kubelet_file [OF cp assms(3) [OF that]]]) (use that in auto)
  then have "guarantees (same_outside ?Z) (for_each xs (restore_kubelet_file sh src))"
    by (rule outside.gu_for_each)
  from guaranteesD [OF this run] show "same_outside ?Z (fs w) (fs v)" .
  show "kubelet_dir @ [x] \<notin> ?Z"
    using assms(4,5) by (auto simp: kubelet_zone_def tree_zone_def prefix_def)
qed

lemma restore_files_Ok:
  assumes cp: "cp_contract sh"
    and "for_each xs (restore_kubelet_file sh src) w = (Ok (), v)" "wf_files (fs w)"
    and "\<And>x. x \<in> set xs \<Longrightarrow> simple_name x" "distinct xs"
    and tmp: "\<And>x y. \<lbrakk>x \<in> set xs; y \<in> set xs\<rbrakk> \<Longrightarrow> y \<noteq> x @ ''.restoring''"
    and src: "\<And>x y. src @ [''kubelet'', y] \<notin> kubelet_zone x"
  shows "\<forall>x \<in> set xs. look v (kubelet_dir @ [x]) = look w (src @ [''kubelet'', x])"
  using assms(2-6)
proof (induction xs arbitrary: w)
  case (Cons x xs)
  from Cons.prems(1) obtain u where one: "restore_kubelet_file sh src x w = (Ok (), u)"
    and rest: "for_each xs (restore_kubelet_file sh src) u = (Ok (), v)"
    by (auto simp: run_simps simp del: for_each.simps)
  have sx: "simple_name x"
    using Cons.prems(3) by simp
  note z = guaranteesD [OF outside_kubelet_file [OF cp sx] one]
  have wfu: "wf_files (fs u)"
    using guaranteesD [OF wf_kubelet_file [OF cp sx] one] Cons.prems(2) by (simp add: keeps_wf_def)
  have "\<forall>y \<in> set xs. look v (kubelet_dir @ [y]) = look u (src @ [''kubelet'', y])"
    using Cons.prems by (intro Cons.IH [OF rest wfu]) auto
  moreover have "look u (src @ [''kubelet'', y]) = look w (src @ [''kubelet'', y])" for y
    by (rule same_outsideD [OF z src])
  moreover have "look v (kubelet_dir @ [x]) = look u (kubelet_dir @ [x])"
    by (rule restore_files_keep [OF cp rest]) (use Cons.prems(3-5) in auto)
  moreover have "look u (kubelet_dir @ [x]) = look w (src @ [''kubelet'', x])"
    by (rule restore_kubelet_file_Ok [OF cp sx one Cons.prems(2) src])
  ultimately show ?case
    by simp
qed simp

section \<open>The whole restore\<close>

text \<open>The live trees of \<open>g\<close> are those of the backup \<open>src\<close> of \<open>f\<close>.\<close>

definition restored :: "files \<Rightarrow> path \<Rightarrow> files \<Rightarrow> bool" where
  "restored f src g \<longleftrightarrow>
     (\<forall>q. lookup g (etcd_data_dir @ q) = lookup f (src @ ''etcd'' # q)) \<and>
     (\<forall>q. lookup g (kubernetes_dir @ q) = lookup f (src @ ''kubernetes'' # q)) \<and>
     (\<forall>x \<in> set kubelet_state_files. lookup g (kubelet_dir @ [x]) = lookup f (src @ [''kubelet'', x]))"

definition etcd_zone :: "path set" where
  "etcd_zone = tree_zone [''var'', ''lib''] ''etcd''"

definition kubernetes_zone :: "path set" where
  "kubernetes_zone = tree_zone [''etc''] ''kubernetes''"

definition state_zone :: "path set" where
  "state_zone = above kubelet_dir \<union> (\<Union>x \<in> set kubelet_state_files. kubelet_zone x)"

lemma dir_split: "etcd_data_dir = [''var'', ''lib''] @ [''etcd'']" "kubernetes_dir = [''etc''] @ [''kubernetes'']"
  by (simp_all add: paths_defs)

lemmas zone_defs = etcd_zone_def kubernetes_zone_def state_zone_def kubelet_zone_def tree_zone_def

lemma backups_apart: "backups_dir @ n # q \<notin> etcd_zone" "backups_dir @ n # q \<notin> kubernetes_zone"
  "backups_dir @ n # q \<notin> state_zone" "backups_dir @ n # q \<notin> kubelet_zone x"
  by (auto simp: zone_defs paths_defs)

lemma live_apart:
  "kubelet_dir @ x # q \<notin> etcd_zone" "kubelet_dir @ x # q \<notin> kubernetes_zone"
  "kubernetes_dir @ q \<notin> etcd_zone" "kubernetes_dir @ q \<notin> state_zone"
  "etcd_data_dir @ q \<notin> kubernetes_zone" "etcd_data_dir @ q \<notin> state_zone"
  by (auto simp: zone_defs paths_defs)

lemma outside_etcd:
  assumes "cp_contract sh"
  shows "guarantees (same_outside etcd_zone) (wrapped s (restoreDir sh src etcd_data_dir))"
  unfolding etcd_zone_def dir_split by (intro guar assms)

lemma outside_kubernetes:
  assumes "cp_contract sh"
  shows "guarantees (same_outside kubernetes_zone) (wrapped s (restoreDir sh src kubernetes_dir))"
  unfolding kubernetes_zone_def dir_split by (intro guar assms)

lemma outside_state:
  assumes "cp_contract sh"
  shows "guarantees (same_outside state_zone)
    (after (mkdir_all kubelet_dir) (for_each kubelet_state_files (restore_kubelet_file sh src)))"
proof -
  have "guarantees (same_outside state_zone) (restore_kubelet_file sh src x)" if "x \<in> set kubelet_state_files" for x
    by (rule guarantees_outside_mono [OF outside_kubelet_file [OF assms]]) (use that in \<open>auto simp: state_zone_def\<close>)
  moreover have "above kubelet_dir \<subseteq> state_zone"
    by (auto simp: state_zone_def)
  ultimately show ?thesis
    by (intro guar outside.gu_for_each)
qed

definition restore_zone :: "path set" where
  "restore_zone = etcd_zone \<union> kubernetes_zone \<union> state_zone"

lemma outside_Restore:
  assumes "cp_contract sh"
  shows "guarantees (same_outside restore_zone) (backup_Restore sh name)"
proof -
  have z: "etcd_zone \<subseteq> restore_zone" "kubernetes_zone \<subseteq> restore_zone" "state_zone \<subseteq> restore_zone"
    by (auto simp: restore_zone_def)
  note parts = guarantees_outside_mono [OF outside_etcd [OF assms] z(1)]
    guarantees_outside_mono [OF outside_kubernetes [OF assms] z(2)]
    guarantees_outside_mono [OF outside_state [OF assms] z(3)]
  show ?thesis
    unfolding backup_Restore_def Let_def by (intro guar parts)
qed

lemma wf_Restore [guar]:
  assumes "cp_contract sh"
  shows "guarantees keeps_wf (backup_Restore sh name)"
proof -
  have "guarantees keeps_wf (restoreDir sh s etcd_data_dir)" "guarantees keeps_wf (restoreDir sh s kubernetes_dir)" for s
    unfolding dir_split by (intro guar assms)+
  then show ?thesis
    unfolding backup_Restore_def Let_def
    by (intro guar wfr.gu_for_each) (use assms in auto)
qed

lemma restore_state_Ok:
  assumes cp: "cp_contract sh" and wf: "wf_files (fs w)" and x: "x \<in> set kubelet_state_files"
    and run: "after (mkdir_all kubelet_dir) (for_each kubelet_state_files (restore_kubelet_file sh (backups_dir @ [name]))) w = (Ok (), v)"
  shows "look v (kubelet_dir @ [x]) = look w (backups_dir @ [name, ''kubelet'', x])"
proof -
  let ?b = "backups_dir @ [name]"
  from run obtain u where m: "mkdir_all kubelet_dir w = (Ok (), u)"
    and l: "for_each kubelet_state_files (restore_kubelet_file sh ?b) u = (Ok (), v)"
    by (auto simp: after_Ok)
  have wfu: "wf_files (fs u)"
    using guaranteesD [OF wf_mkdir_all m] wf by (simp add: keeps_wf_def)
  have "\<forall>x \<in> set kubelet_state_files. look v (kubelet_dir @ [x]) = look u (?b @ [''kubelet'', x])"
  proof (rule restore_files_Ok [OF cp l wfu simple_state_files])
    show "distinct kubelet_state_files"
      by (simp add: kubelet_state_files_def)
    show "x \<in> set kubelet_state_files \<Longrightarrow> y \<in> set kubelet_state_files \<Longrightarrow> y \<noteq> x @ ''.restoring''" for x y
      by (auto simp: kubelet_state_files_def)
    show "?b @ [''kubelet'', y] \<notin> kubelet_zone x" for x y
      using backups_apart by simp
  qed simp
  moreover have "above kubelet_dir \<subseteq> state_zone"
    by (auto simp: state_zone_def)
  from same_outsideD [OF guaranteesD [OF outside_mkdir_all [OF this] m]]
  have "look u (?b @ [''kubelet'', x]) = look w (?b @ [''kubelet'', x])"
    using backups_apart by simp
  ultimately show ?thesis
    using x by simp
qed

lemma backup_Restore_Ok:
  assumes cp: "cp_contract sh" and n: "simple_name name"
    and run: "backup_Restore sh name w = (Ok (), v)" and wf: "wf_files (fs w)"
  shows "restored (fs w) (backups_dir @ [name]) (fs v)"
proof -
  let ?b = "backups_dir @ [name]"
  from run n obtain x u a b where s: "stat ?b w = (Ok x, u)"
    and e: "wrapped ''restore etcd: '' (restoreDir sh (?b @ [''etcd'']) etcd_data_dir) u = (Ok (), a)"
    and k: "wrapped ''restore kubernetes: '' (restoreDir sh (?b @ [''kubernetes'']) kubernetes_dir) a = (Ok (), b)"
    and f: "after (mkdir_all kubelet_dir) (for_each kubelet_state_files (restore_kubelet_file sh ?b)) b = (Ok (), v)"
    unfolding backup_Restore_def by (auto simp: seq_Ok after_Ok wrapped_Ok Let_def)
  have u: "fs u = fs w"
    using s stat_Ok by (cases x) blast
  note oe = guaranteesD [OF outside_etcd [OF cp] e]
  note ok = guaranteesD [OF outside_kubernetes [OF cp] k]
  note os = guaranteesD [OF outside_state [OF cp] f]
  have wfa: "wf_files (fs a)"
    using guaranteesD [OF wf_restoreDir [OF cp] e [unfolded wrapped_Ok dir_split(1)]] wf u by (simp add: keeps_wf_def)
  have wfb: "wf_files (fs b)"
    using guaranteesD [OF wf_restoreDir [OF cp] k [unfolded wrapped_Ok dir_split(2)]] wfa by (simp add: keeps_wf_def)
  have ba: "look a (?b @ q) = look w (?b @ q)" "look b (?b @ q) = look w (?b @ q)" for q
    using same_outsideD [OF oe] same_outsideD [OF ok] backups_apart u by simp_all
  have d1: "below (?b @ [''etcd'']) \<inter> etcd_zone = {}" "below (?b @ [''kubernetes'']) \<inter> kubernetes_zone = {}"
    using backups_apart by (auto simp: prefix_def)
  have etcd: "look a (etcd_data_dir @ q) = look w (?b @ ''etcd'' # q)" for q
    by (rule restoreDir_cases [OF cp e [unfolded wrapped_Ok dir_split(1)] _ d1(1) [unfolded etcd_zone_def]])
      (use u wf in \<open>auto simp: dir_split\<close>)
  have kube: "look b (kubernetes_dir @ q) = look a (?b @ ''kubernetes'' # q)" for q
    by (rule restoreDir_cases [OF cp k [unfolded wrapped_Ok dir_split(2)] wfa d1(2) [unfolded kubernetes_zone_def]])
      (auto simp: dir_split)
  have "look v (kubelet_dir @ [x]) = look w (?b @ [''kubelet'', x])" if "x \<in> set kubelet_state_files" for x
    using restore_state_Ok [OF cp wfb that f] ba(2) [of "[''kubelet'', x]"] by simp
  then show ?thesis
    using etcd kube ba same_outsideD [OF ok] same_outsideD [OF os] live_apart by (simp add: restored_def)
qed

section \<open>Properties\<close>

lemma backups_not_in_zone: "prefix backups_dir q \<Longrightarrow> q \<notin> restore_zone"
  by (auto simp: restore_zone_def zone_defs paths_defs prefix_def)

text \<open>C3: a successful Restore makes the live trees those of the backup, file for file, and removes
  what the backup does not have; whatever fails or crashes, no backup changes, nor does anything
  outside the live trees, their staging paths and the directories above them.\<close>

theorem backup_Restore_correct:
  assumes "cp_contract sh" and "wf_files (fs w)" and "simple_name name" and "backup_Restore sh name w = (r, v)"
  shows "(r = Ok () \<longrightarrow> restored (fs w) (backups_dir @ [name]) (fs v)) \<and>
    (\<forall>q. prefix backups_dir q \<longrightarrow> look v q = look w q) \<and>
    (\<forall>q. q \<notin> restore_zone \<longrightarrow> look v q = look w q)"
proof -
  have "same_outside restore_zone (fs w) (fs v)"
    by (rule guaranteesD [OF outside_Restore [OF assms(1)] assms(4)])
  then show ?thesis
    using backup_Restore_Ok [OF assms(1,3) _ assms(2)] assms(4) backups_not_in_zone
    by (auto simp: same_outside_def)
qed

definition saved_files :: files where
  "saved_files = \<lparr>ents =
     [([], Dir), ([''etc''], Dir), ([''var''], Dir), ([''var'', ''lib''], Dir), (nanok8s_var_dir, Dir),
      (etcd_data_dir, Dir), (etcd_data_dir @ [''db''], File ''new''), (etcd_data_dir @ [''wal''], File ''log''),
      (backups_dir, Dir), (backups_dir @ [''d_b''], Dir), (backups_dir @ [''d_b'', ''etcd''], Dir),
      (backups_dir @ [''d_b'', ''etcd'', ''db''], File ''old'')], stamps = []\<rparr>"

lemma backup_Restore_correct_witness:
  "look (snd (backup_Restore (sample_shell '''') ''d_b'' (quiet saved_files))) (etcd_data_dir @ [''db'']) = Some (File ''old'')"
proof -
  let ?m = "backup_Restore (sample_shell '''') ''d_b'' (quiet saved_files)"
  obtain v where run: "?m = (Ok (), v)" if "fst ?m = Ok ()"
    by (cases ?m) auto
  have ok: "fst ?m = Ok ()"
    by code_simp
  have "wf_files (fs (quiet saved_files))"
      "look (quiet saved_files) (backups_dir @ [''d_b'', ''etcd'', ''db'']) = Some (File ''old'')"
    by code_simp+
  then show ?thesis
    using backup_Restore_correct [OF cp_contract_sample _ _ run [OF ok]]
    unfolding run [OF ok] by (auto simp: simple_name_def restored_def)
qed

text \<open>C4: a backup brings back the state it was taken from: when Create made a backup and, after any
  changes that leave the backup alone, Restore succeeds, then the etcd and kubernetes trees and the
  three kubelet files are those from before Create.\<close>

theorem Restore_Create:
  assumes "cp_contract sh" and "wf_files (fs w)" and "simple_name (backup_Name meta)"
    and "backup_Create sh meta w = (Ok (), w1)" and "look w (backups_dir @ [backup_Name meta]) = None"
    and "\<forall>q. look w2 (backups_dir @ backup_Name meta # q) = look w1 (backups_dir @ backup_Name meta # q)"
    and "wf_files (fs w2)" and "backup_Restore sh (backup_Name meta) w2 = (Ok (), v)"
  shows "(\<forall>q. look v (etcd_data_dir @ q) = look w (etcd_data_dir @ q)) \<and>
    (\<forall>q. look v (kubernetes_dir @ q) = look w (kubernetes_dir @ q)) \<and>
    (\<forall>x \<in> set kubelet_state_files. look v (kubelet_dir @ [x]) = look w (kubelet_dir @ [x]))"
proof -
  from assms(1,3,4,2) refl refl have "holds_snapshot (fs w) meta (fs w1) (backups_dir @ [backup_Name meta])"
    by (cases rule: backup_Create_cases) (use assms(5) in auto)
  moreover have "restored (fs w2) (backups_dir @ [backup_Name meta]) (fs v)"
    by (rule backup_Restore_Ok [OF assms(1,3,8,7)])
  ultimately show ?thesis
    using assms(6) by (simp add: holds_snapshot_def restored_def)
qed

lemma Restore_Create_witness:
  "look (snd (backup_Restore (sample_shell '''') ''d_b'' (snd (backup_Create (sample_shell '''') live_boot (quiet live_files)))))
     (etcd_data_dir @ [''db'']) = Some (File ''e'')"
proof -
  let ?c = "backup_Create (sample_shell '''') live_boot (quiet live_files)"
  let ?m = "backup_Restore (sample_shell '''') ''d_b'' (snd ?c)"
  have n: "backup_Name live_boot = ''d_b''"
    by code_simp
  have c: "?c = (Ok (), snd ?c)" if "fst ?c = Ok ()"
    using that by (cases ?c) auto
  have m: "?m = (Ok (), snd ?m)" if "fst ?m = Ok ()"
    using that by (cases ?m) auto
  have ok: "fst ?c = Ok ()" "fst ?m = Ok ()"
    by code_simp+
  have "wf_files (fs (snd ?c))"
    by code_simp
  moreover have "wf_files (fs (quiet live_files))" "look (quiet live_files) (backups_dir @ [''d_b'']) = None"
      "look (quiet live_files) (etcd_data_dir @ [''db'']) = Some (File ''e'')"
    by code_simp+
  moreover have "simple_name ''d_b''"
    by (simp add: simple_name_def)
  ultimately show ?thesis
    using Restore_Create [OF cp_contract_sample _ _ c [OF ok(1)] _ _ _ m [OF ok(2), folded n]]
    unfolding n by metis
qed

text \<open>C16: one tree of a restore, under every schedule: a restore that does not succeed leaves at
  its place a part of the old tree, never a new entry, and one that succeeds leaves exactly the
  tree of the backup.\<close>

theorem restoreDir_old_or_new:
  assumes "cp_contract sh" and "wf_files (fs w)" and "below src \<inter> tree_zone p n = {}"
    and "restoreDir sh src (p @ [n]) w = (r, v)"
  shows "if r = Ok () then \<forall>q. look v (p @ n # q) = look w (src @ q)
    else \<forall>q. look v (p @ n # q) = look w (p @ n # q) \<or> look v (p @ n # q) = None"
  using assms(1,4,2,3)
proof (cases rule: restoreDir_cases)
  case old
  then show ?thesis
    by (auto simp: shrinks_def)
qed simp

definition crash_in_removal :: "step list" where
  "crash_in_removal =
     [calm, calm, calm, calm, calm\<lparr>plan := Crash, kept_part := (\<lambda>q. q = etcd_data_dir @ [''db''])\<rparr>]"

lemma restoreDir_old_or_new_witness:
  "look (snd (restoreDir (sample_shell '''') (backups_dir @ [''d_b'', ''etcd'']) etcd_data_dir
     (quiet saved_files\<lparr>sched := crash_in_removal\<rparr>))) (etcd_data_dir @ [''db'']) \<in> {Some (File ''new''), None}"
proof -
  let ?w = "quiet saved_files\<lparr>sched := crash_in_removal\<rparr>"
  let ?m = "restoreDir (sample_shell '''') (backups_dir @ [''d_b'', ''etcd'']) ([''var'', ''lib''] @ [''etcd'']) ?w"
  have "fst ?m = Crashed"
    by code_simp
  then have m: "?m = (Crashed, snd ?m)"
    by (cases ?m) auto
  have db: "look ?w (etcd_data_dir @ [''db'']) = Some (File ''new'')"
    by code_simp
  have "wf_files (fs ?w)"
    by code_simp
  moreover have "below (backups_dir @ [''d_b'', ''etcd'']) \<inter> tree_zone [''var'', ''lib''] ''etcd'' = {}"
    by (auto simp: tree_zone_def paths_defs prefix_def)
  ultimately have "\<forall>q. look (snd ?m) ([''var'', ''lib''] @ ''etcd'' # q) = look ?w ([''var'', ''lib''] @ ''etcd'' # q) \<or>
      look (snd ?m) ([''var'', ''lib''] @ ''etcd'' # q) = None"
    using restoreDir_old_or_new [OF cp_contract_sample _ _ m] by simp
  from spec [OF this, of "[''db'']"] db show ?thesis
    by (auto simp: dir_split)
qed

text \<open>The swap of a tree is not atomic: the machine can stop while the live tree is being
  removed, and what is left is neither the old tree nor the one of the backup.\<close>

lemma restoreDir_not_atomic:
  "\<exists>w v. wf_files (fs w) \<and>
     restoreDir (sample_shell '''') (backups_dir @ [''d_b'', ''etcd'']) etcd_data_dir w = (Crashed, v) \<and>
     look v (etcd_data_dir @ [''wal'']) \<noteq> look w (etcd_data_dir @ [''wal'']) \<and>
     look v (etcd_data_dir @ [''db'']) \<noteq> look w (backups_dir @ [''d_b'', ''etcd'', ''db''])"
proof (intro exI conjI)
  let ?w = "quiet saved_files\<lparr>sched := crash_in_removal\<rparr>"
  let ?m = "restoreDir (sample_shell '''') (backups_dir @ [''d_b'', ''etcd'']) etcd_data_dir ?w"
  show "wf_files (fs ?w)"
    by code_simp
  have "fst ?m = Crashed"
    by code_simp
  then show "?m = (Crashed, snd ?m)"
    by (cases ?m) auto
  show "look (snd ?m) (etcd_data_dir @ [''wal'']) \<noteq> look ?w (etcd_data_dir @ [''wal''])"
    by code_simp
  show "look (snd ?m) (etcd_data_dir @ [''db'']) \<noteq> look ?w (backups_dir @ [''d_b'', ''etcd'', ''db''])"
    by code_simp
qed

text \<open>C17: a restore can be repeated: after any interrupted or failed restore, one that succeeds
  still yields the trees the backup had in the beginning.\<close>

theorem backup_Restore_again:
  assumes "cp_contract sh" and "wf_files (fs w)" and "simple_name name"
    and "backup_Restore sh name w = (r, w1)" and "fs w2 = fs w1" and "backup_Restore sh name w2 = (Ok (), v)"
  shows "restored (fs w) (backups_dir @ [name]) (fs v)"
proof -
  have same: "same_outside restore_zone (fs w) (fs w2)"
    using guaranteesD [OF outside_Restore [OF assms(1)] assms(4)] assms(5) by simp
  have "wf_files (fs w2)"
    using guaranteesD [OF wf_Restore [OF assms(1)] assms(4)] assms(2,5) by (simp add: keeps_wf_def)
  from backup_Restore_Ok [OF assms(1,3,6) this] have "restored (fs w2) (backups_dir @ [name]) (fs v)" .
  moreover have "look w2 (backups_dir @ name # q) = look w (backups_dir @ name # q)" for q
    by (rule same_outsideD [OF same backups_not_in_zone]) simp
  ultimately show ?thesis
    by (simp add: restored_def)
qed

definition crash_in_restore :: "step list" where
  "crash_in_restore = calm # crash_in_removal"

lemma backup_Restore_again_witness:
  "look (snd (backup_Restore (sample_shell '''') ''d_b''
      ((snd (backup_Restore (sample_shell '''') ''d_b'' (quiet saved_files\<lparr>sched := crash_in_restore\<rparr>)))\<lparr>sched := []\<rparr>)))
     (etcd_data_dir @ [''db'']) = Some (File ''old'')"
proof -
  let ?w = "quiet saved_files\<lparr>sched := crash_in_restore\<rparr>"
  let ?a = "backup_Restore (sample_shell '''') ''d_b'' ?w"
  let ?m = "backup_Restore (sample_shell '''') ''d_b'' ((snd ?a)\<lparr>sched := []\<rparr>)"
  have "fst ?a = Crashed" "fst ?m = Ok ()"
    by code_simp+
  then have a: "?a = (Crashed, snd ?a)" and m: "?m = (Ok (), snd ?m)"
    by (cases ?a, auto) (cases ?m, auto)
  have "wf_files (fs ?w)" "look ?w (backups_dir @ [''d_b'', ''etcd'', ''db'']) = Some (File ''old'')"
    by code_simp+
  then show ?thesis
    using backup_Restore_again [OF cp_contract_sample _ _ a _ m]
    by (auto simp: simple_name_def restored_def)
qed

end
