(* ===== verification/Backup_Retention.thy ===== *)
theory Backup_Retention
imports Copies "HOL-Library.Multiset"
begin

text \<open>
  Which backups there are, which one is the latest of a deployment, and what pruning keeps and
  removes, at every failure and crash.
\<close>

section \<open>The backups of a file system\<close>

abbreviation backup_path :: "string \<Rightarrow> path" where
  "backup_path n \<equiv> backups_dir @ [n]"

text \<open>What List takes for a finished backup.\<close>

definition is_backup :: "files \<Rightarrow> string \<Rightarrow> bool" where
  "is_backup f n \<longleftrightarrow> is_dir f (backup_path n) \<and> CHR ''_'' \<in> set n \<and>
     \<not> suffix ''.tmp'' n \<and> \<not> suffix ''.restoring'' n"

text \<open>Every entry the kernel reports has a name that is one component.\<close>

definition clean_names :: "files \<Rightarrow> bool" where
  "clean_names f \<longleftrightarrow> (\<forall>p n. lookup f (p @ [n]) \<noteq> None \<longrightarrow> simple_name n)"

lemma clean_names_code [code]:
  "clean_names f \<longleftrightarrow> list_all (\<lambda>(p, n). p = [] \<or> simple_name (last p)) (ents f)"
proof
  show "list_all (\<lambda>(p, n). p = [] \<or> simple_name (last p)) (ents f) \<Longrightarrow> clean_names f"
    by (force simp: clean_names_def list_all_iff dest!: lookup_ents)
next
  assume c: "clean_names f"
  have "simple_name (last p)" if "(p, n) \<in> set (ents f)" "p \<noteq> []" for p n
  proof -
    have "lookup f (butlast p @ [last p]) \<noteq> None"
      using that by (simp add: lookup_def map_of_eq_None_iff rev_image_eqI)
    with c show ?thesis
      unfolding clean_names_def by blast
  qed
  then show "list_all (\<lambda>(p, n). p = [] \<or> simple_name (last p)) (ents f)"
    by (auto simp: list_all_iff)
qed

text \<open>The part of it that matters here.\<close>

definition clean_backups :: "files \<Rightarrow> bool" where
  "clean_backups f \<longleftrightarrow> (\<forall>n. lookup f (backup_path n) \<noteq> None \<longrightarrow> simple_name n)"

lemma clean_names_backups: "clean_names f \<Longrightarrow> clean_backups f"
  by (simp add: clean_names_def clean_backups_def)

lemma snoc_iff: "q \<noteq> [] \<and> butlast q = p \<and> last q = n \<longleftrightarrow> q = p @ [n]"
  by (cases q rule: rev_cases) auto

lemma children_iff: "n \<in> set (children f p) \<longleftrightarrow> lookup f (p @ [n]) \<noteq> None"
proof -
  have "n \<in> set (children f p) \<longleftrightarrow> (\<exists>q m. (q, m) \<in> set (ents f) \<and> (q \<noteq> [] \<and> butlast q = p \<and> last q = n))"
    by (auto simp: children_def)
  also have "\<dots> \<longleftrightarrow> p @ [n] \<in> fst ` set (ents f)"
    unfolding snoc_iff by (force simp: image_iff)
  finally show ?thesis
    by (simp add: lookup_def map_of_eq_None_iff)
qed

lemma children_sorted: "sorted (children f p)" "distinct (children f p)"
  by (simp_all add: children_def)

lemma cut_names: "fst (cut n c) = takeWhile (\<lambda>x. x \<noteq> c) n" "snd (snd (cut n c)) \<longleftrightarrow> c \<in> set n"
  by (simp_all add: cut_def)

lemma listed_entries:
  "map fst (filter listed (map (\<lambda>n. (n, is_dir f (backup_path n))) xs)) = filter (is_backup f) xs"
  by (induction xs) (auto simp: listed_def is_backup_def has_suffix_def cut_names)

lemma backup_List_Ok:
  assumes "backup_List w = (Ok ns, v)" "wf_files (fs w)"
  shows "fs v = fs w" "set ns = {n. is_backup (fs w) n}" "sorted ns" "distinct ns"
proof -
  consider e where "read_dir backups_dir w = (Err e, v)" "is_not_exist e" "ns = []"
    | es where "read_dir backups_dir w = (Ok es, v)" "ns = map fst (filter listed es)"
    using assms(1) by (auto simp: backup_List_def run_simps split: if_splits)
  then have "fs v = fs w \<and> set ns = {n. is_backup (fs w) n} \<and> sorted ns \<and> distinct ns"
  proof cases
    case 1
    then have "fs v = fs w" "look w backups_dir = None"
      using read_dir_Err by blast+
    then show ?thesis
      using 1(3) wf_below_absent [OF assms(2)] by (auto simp: is_backup_def is_dir_def)
  next
    case 2
    have ns: "fs v = fs w" "ns = filter (is_backup (fs w)) (children (fs w) backups_dir)"
      using read_dir_Ok [OF 2(1)] 2(2) listed_entries by simp_all
    have "set ns = {n. is_backup (fs w) n}"
      unfolding ns(2) by (auto simp: children_iff is_backup_def is_dir_def)
    then show ?thesis
      using ns children_sorted [of "fs w" backups_dir] by (simp add: sorted_wrt_filter)
  qed
  then show "fs v = fs w" "set ns = {n. is_backup (fs w) n}" "sorted ns" "distinct ns"
    by blast+
qed

lemma backup_List_unchanged [guar]: "guarantees unchanged backup_List"
  unfolding backup_List_def by (intro guar) (auto split: sum.split intro!: guar)

section \<open>Sorting by time\<close>

text \<open>The front part is kept with the oldest first; \<open>key\<close> gives the times.\<close>

lemma insert_back_mset: "mset (insert_back lt x ys) = add_mset x (mset ys)"
  by (induction ys) auto

lemma insert_back_set: "set (insert_back lt x ys) = insert x (set ys)"
  by (induction ys) auto

lemma insert_back_sorted:
  assumes "\<And>a b. lt a b \<longleftrightarrow> key b < (key a :: int)" and "sorted_wrt (\<lambda>a b. key a \<le> key b) ys"
  shows "sorted_wrt (\<lambda>a b. key a \<le> key b) (insert_back lt x ys)"
  using assms(2)
proof (induction ys)
  case (Cons y ys)
  with assms(1) [of x y] insert_back_set [of lt x ys] show ?case
    by auto
qed simp

lemma sort_slice_facts:
  assumes "\<And>a b. lt a b \<longleftrightarrow> key b < (key a :: int)"
  shows "mset (sort_slice lt xs) = mset xs" "sorted_wrt (\<lambda>a b. key b \<le> key a) (sort_slice lt xs)"
proof -
  have "mset (foldl (\<lambda>ys x. insert_back lt x ys) ys xs) = mset ys + mset xs" for ys
    by (induction xs arbitrary: ys) (simp_all add: insert_back_mset)
  then show "mset (sort_slice lt xs) = mset xs"
    by (simp add: sort_slice_def)
  have "sorted_wrt (\<lambda>a b. key a \<le> key b) ys \<Longrightarrow>
      sorted_wrt (\<lambda>a b. key a \<le> key b) (foldl (\<lambda>ys x. insert_back lt x ys) ys xs)" for ys
    by (induction xs arbitrary: ys) (simp_all add: insert_back_sorted [where key = key, OF assms])
  from this [of "[]"] show "sorted_wrt (\<lambda>a b. key b \<le> key a) (sort_slice lt xs)"
    by (simp add: sort_slice_def sorted_wrt_rev)
qed

lemma sort_slice_head:
  assumes "\<And>a b. lt a b \<longleftrightarrow> key b < (key a :: int)" and "xs \<noteq> []"
  shows "hd (sort_slice lt xs) \<in> set xs" "x \<in> set xs \<Longrightarrow> key x \<le> key (hd (sort_slice lt xs))"
proof -
  have s: "set (sort_slice lt xs) = set xs"
    using sort_slice_facts(1) [where lt = lt and key = key and xs = xs, OF assms(1)] by (rule mset_eq_setD)
  then obtain y ys where ys: "sort_slice lt xs = y # ys"
    using assms(2) by (cases "sort_slice lt xs") auto
  then show "hd (sort_slice lt xs) \<in> set xs"
    using s by auto
  show "x \<in> set xs \<Longrightarrow> key x \<le> key (hd (sort_slice lt xs))"
    using sort_slice_facts(2) [where lt = lt and key = key and xs = xs, OF assms(1)] s unfolding ys by auto
qed

section \<open>The latest backup of a deployment\<close>

lemma stamp_all_Ok:
  "\<lbrakk>stamp_all ns w = (Ok cs, v); \<forall>n \<in> set ns. simple_name n\<rbrakk> \<Longrightarrow>
     fs v = fs w \<and> cs = map (\<lambda>n. (n, mtime (fs w) (backup_path n))) ns"
proof (induction ns arbitrary: w cs)
  case (Cons n ns)
  then obtain k t u r where "stat (backup_path n) w = (Ok (k, t), u)" "stamp_all ns u = (Ok r, v)" "cs = (n, t) # r"
    by (auto simp: run_simps)
  with Cons.IH [of u r] Cons.prems(2) stat_Ok show ?case
    by auto
qed (simp add: run_simps)

lemma stamp_all_unchanged [guar]: "guarantees unchanged (stamp_all ns)"
  by (induction ns) (auto split: prod.split intro!: guar)

lemma Latest_unchanged [guar]: "guarantees unchanged (LatestForDeployment d)"
  unfolding LatestForDeployment_def by (intro guar) (auto intro!: guar)

definition newest_backup :: "files \<Rightarrow> (string \<Rightarrow> bool) \<Rightarrow> string \<Rightarrow> bool" where
  "newest_backup f P n \<longleftrightarrow> is_backup f n \<and> P n \<and>
     (\<forall>m. is_backup f m \<longrightarrow> P m \<longrightarrow> mtime f (backup_path m) \<le> mtime f (backup_path n))"

lemma LatestForDeployment_Ok:
  assumes run: "LatestForDeployment d w = (Ok n, v)" and wf: "wf_files (fs w)" "clean_backups (fs w)"
  shows "(n = '''' \<and> (\<forall>m. is_backup (fs w) m \<longrightarrow> \<not> prefix (d @ ''_'') m)) \<or>
    newest_backup (fs w) (prefix (d @ ''_'')) n"
proof -
  from run obtain ns u cs where l: "backup_List w = (Ok ns, u)"
    and s: "stamp_all (filter (\<lambda>n. has_prefix n (d @ ''_'')) ns) u = (Ok cs, v)"
    and n: "n = (if cs = [] then '''' else fst (hd (sort_slice (\<lambda>a b. snd b < snd a) cs)))"
    unfolding LatestForDeployment_def by (auto simp: run_simps split: if_splits)
  note ns = backup_List_Ok [OF l wf(1)]
  have "\<forall>n \<in> set ns. simple_name n"
    using wf(2) unfolding ns(2) by (auto simp: clean_backups_def is_backup_def is_dir_def)
  then have cs: "cs = map (\<lambda>n. (n, mtime (fs w) (backup_path n))) (filter (prefix (d @ ''_'')) ns)"
    using stamp_all_Ok [OF s] ns(1) by (simp add: has_prefix_def)
  show ?thesis
  proof (cases "cs = []")
    case True
    then show ?thesis
      using n cs ns(2) by (auto simp: filter_empty_conv)
  next
    case False
    note h = sort_slice_head [where key = snd and lt = "\<lambda>a b. snd b < snd a", OF refl False]
    have "newest_backup (fs w) (prefix (d @ ''_'')) n"
      using h(1) h(2) [of "(m, mtime (fs w) (backup_path m))" for m] False
      unfolding newest_backup_def n cs by (auto simp: ns(2))
    then show ?thesis ..
  qed
qed

section \<open>Grouping by deployment\<close>

definition deploy_of :: "string \<Rightarrow> string" where
  "deploy_of n = fst (cut n CHR ''_'')"

text \<open>The groups hold the names of \<open>ns\<close> with a known deployment, each under its deployment.\<close>

definition groups_of :: "string list \<Rightarrow> string list \<Rightarrow> groups \<Rightarrow> bool" where
  "groups_of known ns gs \<longleftrightarrow> distinct (map fst gs) \<and>
     (\<forall>d. map_of gs d =
        (let g = filter (\<lambda>n. deploy_of n = d) ns in if d \<in> set known \<and> g \<noteq> [] then Some g else None))"

lemma groups_of_Nil: "groups_of known [] []"
  by (simp add: groups_of_def)

lemma groups_of_unknown: "groups_of known ns gs \<Longrightarrow> deploy_of n \<notin> set known \<Longrightarrow> groups_of known (ns @ [n]) gs"
  by (auto simp: groups_of_def Let_def)

lemma groups_of_known:
  assumes "groups_of known ns gs" "deploy_of n \<in> set known"
  shows "groups_of known (ns @ [n]) (add_to_group (deploy_of n) n gs)"
  using assms by (auto simp: groups_of_def Let_def add_to_group_def distinct_update update_conv'
      filter_empty_conv split: option.split)

lemma groups_of_mem:
  assumes "groups_of known ns gs" "(d, g) \<in> set gs"
  shows "d \<in> set known" "g = filter (\<lambda>n. deploy_of n = d) ns" "g \<noteq> []"
proof -
  have "map_of gs d = Some g"
    using assms unfolding groups_of_def by (metis map_of_is_SomeI)
  with assms(1) show "d \<in> set known" "g = filter (\<lambda>n. deploy_of n = d) ns" "g \<noteq> []"
    by (auto simp: groups_of_def Let_def split: if_splits)
qed

lemma groups_of_cover:
  assumes "groups_of known ns gs" "n \<in> set ns" "deploy_of n \<in> set known"
  shows "\<exists>g. (deploy_of n, g) \<in> set gs \<and> n \<in> set g"
proof -
  have "map_of gs (deploy_of n) = Some (filter (\<lambda>m. deploy_of m = deploy_of n) ns)"
    using assms by (auto simp: groups_of_def Let_def filter_empty_conv)
  from map_of_SomeD [OF this] assms(2) show ?thesis
    by auto
qed

lemma mset_nth: "i < length xs \<Longrightarrow> mset xs = add_mset (xs ! i) (mset (take i xs @ drop (Suc i) xs))"
proof -
  assume "i < length xs"
  from arg_cong [OF id_take_nth_drop [OF this], of mset] show ?thesis
    by simp
qed

lemma ranged_perm: "mset (ranged ks xs) = mset xs"
proof (induction ks xs rule: ranged.induct)
  case (1 k ks x xs)
  let ?xs = "x # xs" and ?i = "k mod Suc (length xs)"
  have "?i < length ?xs"
    by simp
  from mset_nth [OF this] 1 show ?case
    by (simp add: Let_def)
qed simp_all

lemma ranged_any:
  "mset ys = mset xs \<Longrightarrow> \<exists>ks. ranged ks xs = ys"
proof (induction ys arbitrary: xs)
  case (Cons y ys)
  then have "y \<in> set xs"
    by (metis list.set_intros(1) mset_eq_setD)
  then obtain i where i: "i < length xs" "xs ! i = y"
    by (auto simp: in_set_conv_nth)
  then obtain z zs where xs: "xs = z # zs"
    by (cases xs) auto
  have "mset ys = mset (take i xs @ drop (Suc i) xs)"
    using Cons.prems i mset_nth [OF i(1)] by simp
  from Cons.IH [OF this] obtain ks where "ranged ks (take i xs @ drop (Suc i) xs) = ys"
    by blast
  then have "ranged (i # ks) xs = y # ys"
    using i by (simp add: xs Let_def)
  then show ?case
    by blast
qed simp

section \<open>The calls of Prune\<close>

lemma newer_unchanged [guar]: "guarantees unchanged (newer n m)"
  unfolding newer_def by (intro guar) (auto split: sum.split intro!: guar)

lemma newer_Ok:
  assumes "newer n m w = (Ok b, v)" "simple_name n" "simple_name m"
  shows "fs v = fs w \<and> (b \<longleftrightarrow> mtime (fs w) (backup_path m) < mtime (fs w) (backup_path n))"
proof -
  from assms(1) [unfolded newer_def seq_Ok joinp_simple [OF assms(2)] joinp_simple [OF assms(3)]]
  obtain i u j z where i: "attempt (stat (backup_path n)) w = (Ok i, u)"
    and j: "attempt (stat (backup_path m)) u = (Ok j, z)"
    and b: "(case (i, j) of (Inr (_, s), Inr (_, t)) \<Rightarrow> return (t < s) | _ \<Rightarrow> panic) z = (Ok b, v)"
    by blast
  from b obtain x s y t where "i = Inr (x, s)" "j = Inr (y, t)" "b \<longleftrightarrow> t < s" "z = v"
    by (auto simp: panic_def return_def split: sum.splits)
  with i j stat_Ok [of "backup_path n" w x s u] stat_Ok [of "backup_path m" u y t v] show ?thesis
    by (simp add: attempt_Ok)
qed

lemma insert_newer_unchanged [guar]: "guarantees unchanged (insert_newer x ys)"
  by (induction ys) (auto intro!: guar)

lemma insert_newer_Ok:
  "\<lbrakk>insert_newer x ys w = (Ok zs, v); \<forall>n \<in> set (x # ys). simple_name n\<rbrakk> \<Longrightarrow>
     fs v = fs w \<and> zs = insert_back (\<lambda>n m. mtime (fs w) (backup_path m) < mtime (fs w) (backup_path n)) x ys"
proof (induction ys arbitrary: w zs)
  case (Cons y ys)
  from Cons.prems obtain b u where b: "newer x y w = (Ok b, u)"
    and rest: "(if b then seq (insert_newer x ys) (\<lambda>r. return (y # r)) else return (x # y # ys)) u = (Ok zs, v)"
    by (auto simp: run_simps)
  from newer_Ok [OF b] Cons.prems(2) have u: "fs u = fs w"
    "b \<longleftrightarrow> mtime (fs w) (backup_path y) < mtime (fs w) (backup_path x)"
    by auto
  show ?case
  proof (cases b)
    case True
    with rest obtain rs where "insert_newer x ys u = (Ok rs, v)" "zs = y # rs"
      by (auto simp: run_simps)
    with Cons.IH [of u rs] Cons.prems(2) u True show ?thesis
      by auto
  next
    case False
    with rest u show ?thesis
      by (simp add: run_simps)
  qed
qed (simp add: run_simps)

lemma sort_newest_onto_unchanged [guar]: "guarantees unchanged (sort_newest_onto ys xs)"
  by (induction xs arbitrary: ys) (auto intro!: guar)

lemma sort_newest_unchanged [guar]: "guarantees unchanged (sort_newest g)"
  unfolding sort_newest_def by (intro guar)

lemma sort_newest_onto_Ok:
  "\<lbrakk>sort_newest_onto ys xs w = (Ok zs, v); \<forall>n \<in> set (ys @ xs). simple_name n\<rbrakk> \<Longrightarrow>
     zs = rev (foldl (\<lambda>ys x. insert_back (\<lambda>n m. mtime (fs w) (backup_path m) < mtime (fs w) (backup_path n)) x ys) ys xs)"
proof (induction xs arbitrary: ys w)
  case (Cons x xs)
  from Cons.prems(1) obtain rs u where i: "insert_newer x ys w = (Ok rs, u)"
    and rest: "sort_newest_onto rs xs u = (Ok zs, v)"
    by (auto simp: run_simps)
  note rs = insert_newer_Ok [OF i]
  have "set rs = insert x (set ys)"
    using rs Cons.prems(2) by (simp add: insert_back_set)
  with Cons.IH [OF rest] rs Cons.prems(2) show ?case
    by auto
qed (simp add: run_simps)

lemma sort_newest_Ok:
  assumes "sort_newest g w = (Ok s, v)" "\<forall>n \<in> set g. simple_name n"
  shows "mset s = mset g" "g \<noteq> [] \<Longrightarrow> hd s \<in> set g"
    "\<lbrakk>g \<noteq> []; n \<in> set g\<rbrakk> \<Longrightarrow> mtime (fs w) (backup_path n) \<le> mtime (fs w) (backup_path (hd s))"
proof -
  let ?key = "\<lambda>n. mtime (fs w) (backup_path n)"
  have s: "s = sort_slice (\<lambda>n m. ?key m < ?key n) g"
    using sort_newest_onto_Ok [of "[]" g w s v] assms by (simp add: sort_newest_def sort_slice_def)
  show "mset s = mset g"
    unfolding s by (rule sort_slice_facts(1) [where key = ?key, OF refl])
  show "g \<noteq> [] \<Longrightarrow> hd s \<in> set g" "\<lbrakk>g \<noteq> []; n \<in> set g\<rbrakk> \<Longrightarrow> ?key n \<le> ?key (hd s)"
    unfolding s using sort_slice_head [where lt = "\<lambda>n m. ?key m < ?key n" and key = ?key and xs = g] by auto
qed

section \<open>Removing backups\<close>

definition names_zone :: "string set \<Rightarrow> path set" where
  "names_zone N = (\<Union>n \<in> N. below (backup_path n))"

lemma in_names_zone [simp]: "backups_dir @ n # q \<in> names_zone N \<longleftrightarrow> n \<in> N"
  by (auto simp: names_zone_def)

lemma names_zone_mono: "M \<subseteq> N \<Longrightarrow> names_zone M \<subseteq> names_zone N"
  by (auto simp: names_zone_def)

definition kept_tree :: "files \<Rightarrow> files \<Rightarrow> string \<Rightarrow> bool" where
  "kept_tree f g n \<longleftrightarrow> (\<forall>q. lookup g (backups_dir @ n # q) = lookup f (backups_dir @ n # q))"

definition gone_tree :: "files \<Rightarrow> string \<Rightarrow> bool" where
  "gone_tree g n \<longleftrightarrow> (\<forall>q. lookup g (backups_dir @ n # q) = None)"

lemma kept_outside: "same_outside (names_zone N) f g \<Longrightarrow> n \<notin> N \<Longrightarrow> kept_tree f g n"
  by (simp add: kept_tree_def same_outside_def)

lemma kept_trans: "kept_tree f g n \<Longrightarrow> kept_tree g h n \<Longrightarrow> kept_tree f h n"
  by (simp add: kept_tree_def)

lemma gone_stays: "gone_tree f n \<Longrightarrow> only_removes f g \<Longrightarrow> gone_tree g n"
  by (simp add: gone_tree_def only_removes_def)

text \<open>What every part of Prune respects: it only removes, only below the given names, changes no
  time but that of the backups directory and of what it removes from, and keeps the file system well-formed.\<close>

definition prunes :: "string set \<Rightarrow> files \<Rightarrow> files \<Rightarrow> bool" where
  "prunes N f g \<longleftrightarrow> same_outside (names_zone N) f g \<and> same_times (insert backups_dir (names_zone N)) f g \<and>
     only_removes f g \<and> keeps_wf f g"

interpretation pruning: files_rel "prunes N" for N
proof
  show "prunes N f f" for f
    by (simp add: prunes_def outside.rel_refl times.rel_refl removing.rel_refl wfr.rel_refl)
  show "prunes N f g \<Longrightarrow> prunes N g h \<Longrightarrow> prunes N f h" for f g h
    unfolding prunes_def
    by (meson outside.rel_trans times.rel_trans removing.rel_trans wfr.rel_trans)
qed

lemmas [guar] = pruning.gu_rules

lemma prunesD:
  assumes "prunes N f g"
  shows "same_outside (names_zone N) f g" "n \<notin> N \<Longrightarrow> mtime g (backups_dir @ [n]) = mtime f (backups_dir @ [n])"
    "only_removes f g" "wf_files f \<Longrightarrow> wf_files g"
  using assms by (auto simp: prunes_def keeps_wf_def same_times_def names_zone_def)

lemma prunes_mono: "prunes M f g \<Longrightarrow> M \<subseteq> N \<Longrightarrow> prunes N f g"
  unfolding prunes_def using same_outside_mono names_zone_mono same_times_mono insert_mono by meson

lemma guarantees_prunes_mono: "guarantees (prunes M) m \<Longrightarrow> M \<subseteq> N \<Longrightarrow> guarantees (prunes N) m"
  unfolding guarantees_def using prunes_mono by blast

lemma prunes_unchanged: "guarantees unchanged m \<Longrightarrow> guarantees (prunes N) m"
  by (simp add: guarantees_def unchanged_def pruning.rel_refl)

lemma prunes_remove_backup [guar]:
  assumes "simple_name n" "n \<in> N"
  shows "guarantees (prunes N) (remove_backup n)"
proof -
  have "below (backup_path n) \<subseteq> names_zone N"
    using assms(2) by (auto simp: names_zone_def)
  then have "guarantees (same_outside (names_zone N)) (remove_all (backup_path n))"
      "guarantees (same_times (insert backups_dir (names_zone N))) (remove_all (backup_path n))"
      "guarantees only_removes (remove_all (backup_path n))" "guarantees keeps_wf (remove_all (backup_path n))"
    by (auto intro: guar)
  then have "guarantees (prunes N) (remove_all (backup_path n))"
    by (simp add: guarantees_def prunes_def)
  then show ?thesis
    unfolding remove_backup_def joinp_simple [OF assms(1)] by (intro guar)
qed

lemma remove_backup_Ok:
  assumes "remove_backup n w = (Ok (), v)" "simple_name n" "wf_files (fs w)"
  shows "gone_tree (fs v) n"
proof -
  have "remove_all (backup_path n) w = (Ok (), v)"
    using assms(1,2) by (simp add: remove_backup_def run_simps)
  from remove_all_Ok [OF this] show ?thesis
    using wf_below_absent [OF assms(3), of "backup_path n"] by (auto simp: gone_tree_def)
qed

lemma prunes_for_each:
  assumes "\<forall>n \<in> set ns. simple_name n"
  shows "guarantees (prunes (set ns)) (for_each ns remove_backup)"
  using assms by (auto intro!: pruning.gu_for_each prunes_remove_backup)

lemma remove_backups_Ok:
  "\<lbrakk>for_each ns remove_backup w = (Ok (), v); \<forall>n \<in> set ns. simple_name n; wf_files (fs w); n \<in> set ns\<rbrakk> \<Longrightarrow>
     gone_tree (fs v) n"
proof (induction ns arbitrary: w)
  case (Cons m ns)
  from Cons.prems(1) obtain u where m: "remove_backup m w = (Ok (), u)"
    and rest: "for_each ns remove_backup u = (Ok (), v)"
    by (auto simp: run_simps simp del: for_each.simps)
  have sm: "simple_name m"
    using Cons.prems(2) by simp
  have wfu: "wf_files (fs u)"
    by (rule prunesD(4) [OF guaranteesD [OF prunes_remove_backup [OF sm singletonI] m] Cons.prems(3)])
  have "prunes (set ns) (fs u) (fs v)"
    by (rule guaranteesD [OF prunes_for_each rest]) (use Cons.prems(2) in simp)
  then have "gone_tree (fs v) m"
    using gone_stays remove_backup_Ok [OF m sm Cons.prems(3)] prunesD(3) by blast
  then show ?case
    using Cons.IH [OF rest _ wfu] Cons.prems(2,4) by auto
qed simp

section \<open>The unknown deployments\<close>

definition unknown :: "string list \<Rightarrow> string list \<Rightarrow> string set" where
  "unknown known ns = {n \<in> set ns. deploy_of n \<notin> set known}"

lemma prunes_unknown:
  "\<forall>n \<in> set ns. simple_name n \<Longrightarrow> guarantees (prunes (unknown known ns)) (prune_unknown known ns gs)"
proof (induction ns arbitrary: gs)
  case (Cons n ns)
  have sub: "unknown known ns \<subseteq> unknown known (n # ns)"
    by (auto simp: unknown_def)
  have ih: "guarantees (prunes (unknown known (n # ns))) (prune_unknown known ns gs')" for gs'
    by (rule guarantees_prunes_mono [OF Cons.IH sub]) (use Cons.prems in simp)
  show ?case
  proof (cases "deploy_of n \<in> set known")
    case True
    with ih show ?thesis
      by (simp add: Let_def deploy_of_def)
  next
    case False
    then have "n \<in> unknown known (n # ns)"
      by (simp add: unknown_def)
    then have "guarantees (prunes (unknown known (n # ns))) (remove_backup n)"
      using Cons.prems by (intro guar) simp_all
    with ih False show ?thesis
      by (auto simp: Let_def deploy_of_def intro: guar)
  qed
qed (auto intro: guar)

lemma prune_unknown_Ok:
  "\<lbrakk>prune_unknown known ns gs w = (Ok gs', v); \<forall>n \<in> set ns. simple_name n; wf_files (fs w); groups_of known ps gs\<rbrakk> \<Longrightarrow>
     groups_of known (ps @ ns) gs' \<and> (\<forall>n \<in> unknown known ns. gone_tree (fs v) n)"
proof (induction ns arbitrary: w gs ps)
  case (Cons n ns)
  have sn: "simple_name n" "\<forall>n \<in> set ns. simple_name n"
    using Cons.prems(2) by simp_all
  show ?case
  proof (cases "deploy_of n \<in> set known")
    case True
    then have "prune_unknown known ns (add_to_group (deploy_of n) n gs) w = (Ok gs', v)"
      using Cons.prems(1) by (simp add: Let_def deploy_of_def)
    from Cons.IH [OF this sn(2) Cons.prems(3) groups_of_known [OF Cons.prems(4) True]] show ?thesis
      using True by (auto simp: unknown_def)
  next
    case False
    then obtain u where n: "remove_backup n w = (Ok (), u)" and rest: "prune_unknown known ns gs u = (Ok gs', v)"
      using Cons.prems(1) by (auto simp: Let_def deploy_of_def run_simps)
    have wfu: "wf_files (fs u)"
      by (rule prunesD(4) [OF guaranteesD [OF prunes_remove_backup [OF sn(1) singletonI] n] Cons.prems(3)])
    have "gone_tree (fs v) n"
      using gone_stays [OF remove_backup_Ok [OF n sn(1) Cons.prems(3)]]
        prunesD(3) [OF guaranteesD [OF prunes_unknown [OF sn(2)] rest]] .
    with Cons.IH [OF rest sn(2) wfu groups_of_unknown [OF Cons.prems(4) False]] show ?thesis
      by (auto simp: unknown_def)
  qed
qed (simp add: run_simps unknown_def)

section \<open>One group and all groups\<close>

definition newest_of :: "files \<Rightarrow> string list \<Rightarrow> string \<Rightarrow> bool" where
  "newest_of f g k \<longleftrightarrow> k \<in> set g \<and> (\<forall>n \<in> set g. mtime f (backup_path n) \<le> mtime f (backup_path k))"

text \<open>What has happened to a group: a newest backup is intact, and on success it is the only one.\<close>

definition group_done :: "unit res \<Rightarrow> files \<Rightarrow> files \<Rightarrow> string list \<Rightarrow> bool" where
  "group_done r f h g \<longleftrightarrow> (\<exists>k. newest_of f g k \<and> kept_tree f h k \<and>
     (r = Ok () \<longrightarrow> (\<forall>n \<in> set g. n \<noteq> k \<longrightarrow> gone_tree h n)))"

lemma newest_exists: "g \<noteq> [] \<Longrightarrow> \<exists>k. newest_of f g k"
proof (induction g rule: list_nonempty_induct)
  case (cons x xs)
  then obtain k where "newest_of f xs k"
    by blast
  then have "newest_of f (x # xs) (if mtime f (backup_path x) \<le> mtime f (backup_path k) then k else x)"
    by (auto simp: newest_of_def)
  then show ?case
    by blast
qed (auto simp: newest_of_def)

lemma newest_of_times: "prunes N f g \<Longrightarrow> set xs \<inter> N = {} \<Longrightarrow> newest_of g xs k \<longleftrightarrow> newest_of f xs k"
  using prunesD(2) [of N f g] unfolding newest_of_def by (metis (no_types, lifting) disjoint_iff)

lemma prunes_sort [guar]: "guarantees (prunes N) (sort_newest g)"
  by (intro prunes_unchanged guar)

lemma prune_sorted_cases:
  assumes sort: "sort_newest g w = (Ok s, u)" and run: "for_each (tl s) remove_backup u = (r, v)"
    and g: "\<forall>n \<in> set g. simple_name n" "distinct g" "g \<noteq> []" and wf: "wf_files (fs w)"
  shows "group_done r (fs w) (fs v) g" "prunes (set g) (fs w) (fs v)"
proof -
  have u: "fs u = fs w"
    using guaranteesD [OF sort_newest_unchanged sort] by (simp add: unchanged_def)
  note s = sort_newest_Ok [OF sort g(1)]
  have set_s: "set s = set g" "distinct s"
    using mset_eq_setD [OF s(1)] mset_eq_imp_distinct_iff [OF s(1)] g(2) by simp_all
  then obtain k ks where ks: "s = k # ks"
    using g(3) by (cases s) auto
  have names: "\<forall>n \<in> set (tl s). simple_name n" and sub: "set (tl s) \<subseteq> set g"
    using g(1) set_s(1) by (auto simp: ks)
  have p: "prunes (set (tl s)) (fs w) (fs v)"
    using guaranteesD [OF prunes_for_each [OF names] run] u by simp
  have "newest_of (fs w) g k"
    using s(2,3) g(3) by (simp add: newest_of_def ks)
  moreover have "kept_tree (fs w) (fs v) k"
    by (rule kept_outside [OF prunesD(1) [OF p]]) (use set_s(2) in \<open>simp add: ks\<close>)
  moreover have "gone_tree (fs v) n" if "r = Ok ()" "n \<in> set g" "n \<noteq> k" for n
  proof -
    have "n \<in> set (tl s)"
      using that set_s(1) by (auto simp: ks)
    from remove_backups_Ok [OF run [unfolded that(1)] names _ this] show ?thesis
      using wf u by simp
  qed
  ultimately show "group_done r (fs w) (fs v) g"
    by (auto simp: group_done_def)
  show "prunes (set g) (fs w) (fs v)"
    by (rule prunes_mono [OF p sub])
qed

lemma prune_group_cases:
  assumes run: "prune_group g w = (r, v)" and g: "\<forall>n \<in> set g. simple_name n" "distinct g" "g \<noteq> []"
    and wf: "wf_files (fs w)"
  shows "group_done r (fs w) (fs v) g" "prunes (set g) (fs w) (fs v)"
proof -
  have "group_done r (fs w) (fs v) g \<and> prunes (set g) (fs w) (fs v)"
  proof (cases "length g \<le> 1")
    case True
    then obtain n where "g = [n]"
      using g(3) by (cases g) auto
    with run show ?thesis
      by (simp add: prune_group_def run_simps group_done_def newest_of_def kept_tree_def pruning.rel_refl)
  next
    case False
    with run have "seq (sort_newest g) (\<lambda>s. for_each (tl s) remove_backup) w = (r, v)"
      by (simp add: prune_group_def)
    then show ?thesis
    proof (cases rule: seq_cases)
      case (stopped r')
      obtain k where "newest_of (fs w) g k"
        using newest_exists [OF g(3)] by blast
      moreover have "fs v = fs w"
        using guaranteesD [OF sort_newest_unchanged stopped(1)] by (simp add: unchanged_def)
      ultimately show ?thesis
        using stopped(3) by (auto simp: group_done_def kept_tree_def pruning.rel_refl)
    next
      case (through s u)
      from prune_sorted_cases [OF this g wf] show ?thesis
        by blast
    qed
  qed
  then show "group_done r (fs w) (fs v) g" "prunes (set g) (fs w) (fs v)"
    by simp_all
qed

text \<open>What was done to a group stays done when other groups are pruned before or after it, or only they were.\<close>

lemma group_done_before:
  assumes "group_done r u v g" "prunes M f u" "set g \<inter> M = {}"
  shows "group_done r f v g"
proof -
  from assms(1) obtain k where k: "newest_of u g k" "kept_tree u v k" "r = Ok () \<longrightarrow> (\<forall>n \<in> set g. n \<noteq> k \<longrightarrow> gone_tree v n)"
    by (auto simp: group_done_def)
  then have "k \<notin> M"
    using assms(3) by (auto simp: newest_of_def)
  then have "kept_tree f v k"
    using kept_trans [OF kept_outside [OF prunesD(1) [OF assms(2)]] k(2)] by blast
  with k newest_of_times [OF assms(2,3)] show ?thesis
    by (auto simp: group_done_def)
qed

lemma group_done_after:
  assumes "group_done (Ok ()) f u g" "prunes N u v" "set g \<inter> N = {}"
  shows "group_done r f v g"
proof -
  from assms(1) obtain k where k: "newest_of f g k" "kept_tree f u k" "\<forall>n \<in> set g. n \<noteq> k \<longrightarrow> gone_tree u n"
    by (auto simp: group_done_def)
  then have "k \<notin> N"
    using assms(3) by (auto simp: newest_of_def)
  then have "kept_tree f v k"
    using kept_trans [OF k(2) kept_outside [OF prunesD(1) [OF assms(2)]]] by blast
  with k gone_stays prunesD(3) [OF assms(2)] show ?thesis
    unfolding group_done_def by blast
qed

lemma group_done_idle:
  assumes "prunes M f v" "set g \<inter> M = {}" "g \<noteq> []" "r \<noteq> Ok ()"
  shows "group_done r f v g"
proof -
  have "group_done r v v g"
    using newest_exists [OF assms(3), of v] assms(4) by (auto simp: group_done_def kept_tree_def)
  from group_done_before [OF this assms(1,2)] show ?thesis .
qed

lemma prune_groups_cases:
  assumes "for_each gs (\<lambda>(d, g). prune_group g) w = (r, v)"
    and "\<forall>(d, g) \<in> set gs. distinct g \<and> g \<noteq> [] \<and> (\<forall>n \<in> set g. simple_name n)"
    and "\<forall>d g e h. (d, g) \<in> set gs \<longrightarrow> (e, h) \<in> set gs \<longrightarrow> d \<noteq> e \<longrightarrow> set g \<inter> set h = {}"
    and "distinct (map fst gs)"
    and "wf_files (fs w)"
  shows "(\<forall>(d, g) \<in> set gs. group_done r (fs w) (fs v) g) \<and> prunes (\<Union>(d, g) \<in> set gs. set g) (fs w) (fs v)"
  using assms
proof (induction gs arbitrary: w)
  case (Cons x gs)
  obtain d g where x: "x = (d, g)"
    by (cases x)
  let ?N = "\<Union>(d, g) \<in> set gs. set g" and ?M = "\<Union>(d, g) \<in> set (x # gs). set g"
  have g: "\<forall>n \<in> set g. simple_name n" "distinct g" "g \<noteq> []"
    using Cons.prems(2) by (auto simp: x)
  have apart: "set g \<inter> set h = {}" if "(e, h) \<in> set gs" for e h
  proof -
    have "d \<noteq> e"
      using Cons.prems(4) that by (auto simp: x image_iff)
    then show ?thesis
      using Cons.prems(3) that unfolding x by (meson list.set_intros)
  qed
  have sub: "set g \<subseteq> ?M" "?N \<subseteq> ?M"
    by (auto simp: x)
  from Cons.prems(1) have "after (prune_group g) (for_each gs (\<lambda>(d, g). prune_group g)) w = (r, v)"
    by (simp add: x)
  then show ?case
  proof (cases rule: after_cases)
    case (stopped r')
    note one = prune_group_cases [OF stopped(1) g Cons.prems(5)]
    have "group_done r (fs w) (fs v) h" if "(e, h) \<in> set gs" for e h
      by (rule group_done_idle [OF one(2)]) (use apart [OF that] Cons.prems(2) that stopped(3) in \<open>auto simp: x\<close>)
    moreover have "group_done r (fs w) (fs v) g"
      using one(1) stopped(3) by (auto simp: group_done_def)
    ultimately show ?thesis
      using prunes_mono [OF one(2) sub(1)] by (auto simp: x)
  next
    case (through u)
    note one = prune_group_cases [OF through(1) g Cons.prems(5)]
    have rest: "(\<forall>(e, h) \<in> set gs. group_done r (fs u) (fs v) h) \<and> prunes ?N (fs u) (fs v)"
    proof (intro Cons.IH [OF through(2) _ _ _ prunesD(4) [OF one(2) Cons.prems(5)]])
      show "\<forall>d g e h. (d, g) \<in> set gs \<longrightarrow> (e, h) \<in> set gs \<longrightarrow> d \<noteq> e \<longrightarrow> set g \<inter> set h = {}"
        using Cons.prems(3) by (meson list.set_intros(2))
    qed (use Cons.prems(2,4) in auto)
    have "group_done r (fs w) (fs v) h" if "(e, h) \<in> set gs" for e h
      by (rule group_done_before [OF _ one(2)]) (use rest that apart [OF that] in auto)
    moreover have "group_done r (fs w) (fs v) g"
      by (rule group_done_after [OF one(1) conjunct2 [OF rest]]) (use apart in auto)
    moreover have "prunes ?M (fs w) (fs v)"
      using pruning.rel_trans [OF prunes_mono [OF one(2) sub(1)] prunes_mono [OF conjunct2 [OF rest] sub(2)]] .
    ultimately show ?thesis
      by (auto simp: x)
  qed
qed (simp add: return_def pruning.rel_refl)

section \<open>Prune\<close>

text \<open>The loop over the map of groups, in whatever order it is ranged over.\<close>

lemma prune_ranged_cases:
  assumes run: "for_each (ranged picks gs) (\<lambda>(d, g). prune_group g) u = (r, v)"
    and gs: "groups_of known ns gs" and names: "\<forall>n \<in> set ns. simple_name n" "distinct ns" and wf: "wf_files (fs u)"
  shows "(\<forall>(d, g) \<in> set gs. group_done r (fs u) (fs v) g) \<and> prunes (\<Union>(d, g) \<in> set gs. set g) (fs u) (fs v)"
proof -
  note mem = groups_of_mem [OF gs]
  have same: "set (ranged picks gs) = set gs"
    by (rule mset_eq_setD [OF ranged_perm])
  have "distinct (map fst gs)"
    using gs by (simp add: groups_of_def)
  then have dist: "distinct (map fst (ranged picks gs))"
    using mset_eq_imp_distinct_iff [of "map fst (ranged picks gs)" "map fst gs"] ranged_perm [of picks gs]
    by (simp add: mset_map)
  have "\<forall>(d, g) \<in> set (ranged picks gs). distinct g \<and> g \<noteq> [] \<and> (\<forall>n \<in> set g. simple_name n)"
    unfolding same using mem names by fastforce
  moreover have "\<forall>d g e h. (d, g) \<in> set (ranged picks gs) \<longrightarrow> (e, h) \<in> set (ranged picks gs) \<longrightarrow> d \<noteq> e \<longrightarrow> set g \<inter> set h = {}"
    unfolding same by (auto dest!: mem(2))
  ultimately show ?thesis
    using prune_groups_cases [OF run _ _ dist wf] unfolding same by blast
qed

lemma backup_Prune_cases:
  assumes run: "backup_Prune picks known w = (r, v)" and wf: "wf_files (fs w)" "clean_backups (fs w)"
  obtains (stopped) N where "prunes N (fs w) (fs v)" "\<forall>n \<in> N. is_backup (fs w) n \<and> deploy_of n \<notin> set known" "r \<noteq> Ok ()"
    | (pruned) gs N ns and u :: world where "set ns = {n. is_backup (fs w) n}" "distinct ns" "groups_of known ns gs"
        "N = unknown known ns" "prunes N (fs w) (fs u)" "\<forall>n \<in> N. gone_tree (fs u) n"
        "(\<forall>(d, g) \<in> set gs. group_done r (fs u) (fs v) g) \<and> prunes (\<Union>(d, g) \<in> set gs. set g) (fs u) (fs v)"
  using run [unfolded backup_Prune_def]
proof (cases rule: seq_cases)
  case (stopped r')
  have "fs v = fs w"
    using guaranteesD [OF backup_List_unchanged stopped(1)] by (simp add: unchanged_def)
  then show thesis
    using that(1) [of "{}"] stopped(3) by (simp add: pruning.rel_refl)
next
  case l: (through ns x)
  note ns = backup_List_Ok [OF l(1) wf(1)]
  have names: "\<forall>n \<in> set ns. simple_name n"
    using wf(2) unfolding ns(2) by (auto simp: clean_backups_def is_backup_def is_dir_def)
  from l(2) show thesis
  proof (cases rule: seq_cases)
    case (stopped r')
    from guaranteesD [OF prunes_unknown [OF names] stopped(1)] ns(1)
    have "prunes (unknown known ns) (fs w) (fs v)"
      by simp
    then show thesis
      using that(1) stopped(3) ns(2) by (auto simp: unknown_def)
  next
    case p: (through gs u)
    have pr: "prunes (unknown known ns) (fs w) (fs u)"
      using guaranteesD [OF prunes_unknown [OF names] p(1)] ns(1) by simp
    have "wf_files (fs x)"
      using wf ns(1) by simp
    from prune_unknown_Ok [OF p(1) names this groups_of_Nil]
    have gs: "groups_of known ns gs" and gone: "\<forall>n \<in> unknown known ns. gone_tree (fs u) n"
      by simp_all
    from prune_ranged_cases [OF p(2) gs names ns(4) prunesD(4) [OF pr wf(1)]] show thesis
      using that(2) ns(2,4) gs pr gone by blast
  qed
qed

text \<open>One of the newest backups of each known deployment is intact, and after a success the only one.\<close>

definition newest_kept :: "unit res \<Rightarrow> files \<Rightarrow> files \<Rightarrow> string \<Rightarrow> bool" where
  "newest_kept r f h d \<longleftrightarrow> (\<exists>k. newest_backup f (\<lambda>n. deploy_of n = d) k \<and> kept_tree f h k \<and>
     (r = Ok () \<longrightarrow> (\<forall>n. is_backup f n \<and> deploy_of n = d \<and> n \<noteq> k \<longrightarrow> gone_tree h n)))"

lemma group_newest:
  assumes "group_done r f h g" "set g = {n. is_backup f n \<and> deploy_of n = d}"
  shows "newest_kept r f h d"
proof -
  from assms(1) obtain k where "newest_of f g k" "kept_tree f h k" "r = Ok () \<longrightarrow> (\<forall>n \<in> set g. n \<noteq> k \<longrightarrow> gone_tree h n)"
    by (auto simp: group_done_def)
  then show ?thesis
    unfolding newest_kept_def newest_of_def newest_backup_def assms(2) by blast
qed

lemma stopped_newest:
  assumes "prunes N f h" "\<forall>n \<in> N. is_backup f n \<and> deploy_of n \<notin> set known" "r \<noteq> Ok ()"
    and "d \<in> set known" "is_backup f n" "deploy_of n = d"
  shows "newest_kept r f h d"
proof -
  let ?g = "filter (\<lambda>n. is_backup f n \<and> deploy_of n = d) (children f backups_dir)"
  have mem: "set ?g = {n. is_backup f n \<and> deploy_of n = d}"
    by (auto simp: children_iff is_backup_def is_dir_def)
  with assms(5,6) have "?g \<noteq> []"
    by (metis (mono_tags, lifting) empty_iff list.set(1) mem_Collect_eq)
  from group_newest [OF group_done_idle [OF assms(1) _ this assms(3)] mem] show ?thesis
    using assms(2,4) mem by auto
qed

lemma pruned_newest:
  assumes "set ns = {n. is_backup f n}" "groups_of known ns gs" "prunes (unknown known ns) f u"
    and "\<forall>(d, g) \<in> set gs. group_done r u v g"
    and "d \<in> set known" "is_backup f n" "deploy_of n = d"
  shows "newest_kept r f v d"
proof -
  have "n \<in> set ns"
    using assms(1,6) by simp
  from groups_of_cover [OF assms(2) this] assms(5,7) obtain g where g: "(d, g) \<in> set gs"
    by metis
  have set_g: "set g = {n. is_backup f n \<and> deploy_of n = d}"
    using groups_of_mem(2) [OF assms(2) g] assms(1) by auto
  moreover have "group_done r f v g"
    by (rule group_done_before [OF _ assms(3)]) (use assms(4,5) g set_g in \<open>auto simp: unknown_def\<close>)
  ultimately show ?thesis
    by (rule group_newest [rotated])
qed

section \<open>Properties\<close>

text \<open>C10: pruning is safe: for every known deployment that has backups one of its newest backups is
  left intact, whatever fails or crashes on the way and in whatever order the map is ranged over; a
  success means that no other backup of the deployment is left, nor any backup of an unknown one;
  and nothing but backups is touched.\<close>

theorem backup_Prune_keeps_newest:
  assumes "wf_files (fs w)" and "clean_names (fs w)" and "backup_Prune picks known w = (r, v)"
  shows "(\<forall>d \<in> set known. (\<exists>n. is_backup (fs w) n \<and> deploy_of n = d) \<longrightarrow>
      (\<exists>k. newest_backup (fs w) (\<lambda>n. deploy_of n = d) k \<and> kept_tree (fs w) (fs v) k \<and>
        (r = Ok () \<longrightarrow> (\<forall>n. is_backup (fs w) n \<and> deploy_of n = d \<and> n \<noteq> k \<longrightarrow> gone_tree (fs v) n)))) \<and>
    (r = Ok () \<longrightarrow> (\<forall>n. is_backup (fs w) n \<and> deploy_of n \<notin> set known \<longrightarrow> gone_tree (fs v) n)) \<and>
    (\<forall>q. q \<notin> names_zone {n. is_backup (fs w) n} \<longrightarrow> look v q = look w q)"
  using assms(3,1) clean_names_backups [OF assms(2)]
proof (cases rule: backup_Prune_cases)
  case (stopped N)
  have "look v q = look w q" if "q \<notin> names_zone {n. is_backup (fs w) n}" for q
    using same_outsideD [OF prunesD(1) [OF stopped(1)]] that names_zone_mono [of N "{n. is_backup (fs w) n}"] stopped(2)
    by blast
  with stopped_newest [OF stopped] stopped(3) show ?thesis
    by (auto simp: newest_kept_def)
next
  case (pruned gs N ns u)
  note mem = groups_of_mem [OF pruned(3)]
  have pr: "prunes (\<Union>(d, g) \<in> set gs. set g) (fs u) (fs v)"
    using pruned(7) by blast
  have "set g \<subseteq> {n. is_backup (fs w) n}" if "(d, g) \<in> set gs" for d g
    unfolding mem(2) [OF that] pruned(1) [symmetric] by auto
  then have parts: "N \<subseteq> {n. is_backup (fs w) n}" "(\<Union>(d, g) \<in> set gs. set g) \<subseteq> {n. is_backup (fs w) n}"
    unfolding pruned(1) [symmetric] pruned(4) by (auto simp: unknown_def)
  have gone: "gone_tree (fs v) n" if "is_backup (fs w) n" "deploy_of n \<notin> set known" for n
    using that pruned(1,4,6) gone_stays prunesD(3) [OF pr] by (auto simp: unknown_def)
  have frame: "look v q = look w q" if "q \<notin> names_zone {n. is_backup (fs w) n}" for q
    by (rule same_outsideD [OF prunesD(1) [OF pruning.rel_trans [OF prunes_mono [OF pruned(5) parts(1)]
            prunes_mono [OF pr parts(2)]]] that])
  have newest: "newest_kept r (fs w) (fs v) d" if "d \<in> set known" "is_backup (fs w) n" "deploy_of n = d" for n d
    by (rule pruned_newest [OF pruned(1,3) pruned(5) [unfolded pruned(4)] conjunct1 [OF pruned(7)] that])
  show ?thesis
  proof (intro conjI ballI impI allI)
    fix d
    assume "d \<in> set known" "\<exists>n. is_backup (fs w) n \<and> deploy_of n = d"
    then show "\<exists>k. newest_backup (fs w) (\<lambda>n. deploy_of n = d) k \<and> kept_tree (fs w) (fs v) k \<and>
        (r = Ok () \<longrightarrow> (\<forall>n. is_backup (fs w) n \<and> deploy_of n = d \<and> n \<noteq> k \<longrightarrow> gone_tree (fs v) n))"
      by (elim exE conjE) (rule newest [unfolded newest_kept_def])
  qed (use gone frame in simp_all)
qed

definition store_files :: "(string \<times> int) list \<Rightarrow> files" where
  "store_files bs = \<lparr>ents = [([], Dir), ([''var''], Dir), ([''var'', ''lib''], Dir), (nanok8s_var_dir, Dir), (backups_dir, Dir)]
       @ map (\<lambda>(n, _). (backup_path n, Dir)) bs,
     stamps = map (\<lambda>(n, t). (backup_path n, t)) bs\<rparr>"

definition sample_store :: files where
  "sample_store = store_files [(''a_1'', 1), (''a_2'', 2), (''b_1'', 3)]"

lemma backup_Prune_keeps_newest_witness:
  "look (snd (backup_Prune [] [''a''] (quiet sample_store))) (backup_path ''a_1'') = None \<and>
    look (snd (backup_Prune [] [''a''] (quiet sample_store))) (backup_path ''b_1'') = None"
proof -
  let ?m = "backup_Prune [] [''a''] (quiet sample_store)"
  have "fst ?m = Ok ()"
    by code_simp
  then have m: "?m = (Ok (), snd ?m)"
    by (cases ?m) auto
  have w: "wf_files (fs (quiet sample_store))" "clean_names (fs (quiet sample_store))"
    by code_simp+
  have b: "is_backup (fs (quiet sample_store)) ''a_1''" "is_backup (fs (quiet sample_store)) ''a_2''"
    "is_backup (fs (quiet sample_store)) ''b_1''"
    by code_simp+
  have d: "deploy_of ''a_1'' = ''a''" "deploy_of ''a_2'' = ''a''" "deploy_of ''b_1'' \<notin> set [''a'']"
    by code_simp+
  have t: "mtime (fs (quiet sample_store)) (backup_path ''a_1'') < mtime (fs (quiet sample_store)) (backup_path ''a_2'')"
    by code_simp
  note prune = backup_Prune_keeps_newest [OF w m]
  from prune b d obtain k where k: "newest_backup (fs (quiet sample_store)) (\<lambda>n. deploy_of n = ''a'') k"
    "\<forall>n. is_backup (fs (quiet sample_store)) n \<and> deploy_of n = ''a'' \<and> n \<noteq> k \<longrightarrow> gone_tree (fs (snd ?m)) n"
    by (metis list.set_intros(1))
  have "k \<noteq> ''a_1''"
    using k(1) b(2) d(2) t unfolding newest_backup_def by (metis not_le)
  then have "gone_tree (fs (snd ?m)) ''a_1''" "gone_tree (fs (snd ?m)) ''b_1''"
    using k(2) b d prune by metis+
  then show ?thesis
    unfolding gone_tree_def by metis
qed

text \<open>The backup chosen for a restore is a finished backup by a name that starts with the
  deployment id and an underscore, none of these is newer, and the empty name is returned exactly
  when there is none.\<close>

lemma LatestForDeployment_newest:
  assumes "wf_files (fs w)" and "clean_names (fs w)" and "LatestForDeployment d w = (Ok n, v)"
  shows "if n = '''' then \<forall>m. is_backup (fs w) m \<longrightarrow> \<not> prefix (d @ ''_'') m
    else newest_backup (fs w) (prefix (d @ ''_'')) n"
proof -
  have "\<not> newest_backup (fs w) (prefix (d @ ''_'')) ''''"
    by (simp add: newest_backup_def)
  with LatestForDeployment_Ok [OF assms(3,1) clean_names_backups [OF assms(2)]] show ?thesis
    by auto
qed

lemma LatestForDeployment_newest_witness:
  "newest_backup sample_store (prefix ''a_'') ''a_2''"
proof -
  let ?m = "LatestForDeployment ''a'' (quiet sample_store)"
  have "fst ?m = Ok ''a_2''"
    by code_simp
  then have m: "?m = (Ok ''a_2'', snd ?m)"
    by (cases ?m) auto
  have "wf_files (fs (quiet sample_store))" "clean_names (fs (quiet sample_store))"
    by code_simp+
  from LatestForDeployment_newest [OF this m] show ?thesis
    by simp
qed

text \<open>C34: names separate boots: for deployment ids without an underscore the name of a backup
  determines both ids, the part Prune groups by is the deployment id, and the prefix test of
  LatestForDeployment selects exactly the backups of the deployment.\<close>

theorem backup_Name_separates:
  assumes "CHR ''_'' \<notin> set (deployment_id m)" and "CHR ''_'' \<notin> set (deployment_id n)"
    and "CHR ''_'' \<notin> set d"
  shows "(backup_Name m = backup_Name n \<longleftrightarrow> deployment_id m = deployment_id n \<and> boot_id m = boot_id n) \<and>
    deploy_of (backup_Name m) = deployment_id m \<and>
    (has_prefix (backup_Name m) (d @ ''_'') \<longleftrightarrow> deployment_id m = d)"
proof -
  have cut: "cut (backup_Name x) CHR ''_'' = (deployment_id x, boot_id x, True)" if "CHR ''_'' \<notin> set (deployment_id x)" for x
    unfolding backup_Name_def by (rule cut_found [OF that])
  have "backup_Name m = backup_Name n \<longleftrightarrow> deployment_id m = deployment_id n \<and> boot_id m = boot_id n"
  proof
    assume "backup_Name m = backup_Name n"
    with cut [OF assms(1)] cut [OF assms(2)] show "deployment_id m = deployment_id n \<and> boot_id m = boot_id n"
      by simp
  qed (simp add: backup_Name_def)
  moreover have "has_prefix (backup_Name m) (d @ ''_'') \<longleftrightarrow> deployment_id m = d"
  proof
    assume "has_prefix (backup_Name m) (d @ ''_'')"
    then obtain r where "backup_Name m = d @ CHR ''_'' # r"
      by (auto simp: has_prefix_def prefix_def)
    then have "cut (backup_Name m) CHR ''_'' = (d, r, True)"
      using cut_found [OF assms(3)] by simp
    with cut [OF assms(1)] show "deployment_id m = d"
      by simp
  qed (simp add: has_prefix_def backup_Name_def)
  ultimately show ?thesis
    using cut [OF assms(1)] by (simp add: deploy_of_def)
qed

lemma backup_Name_separates_witness:
  "backup_Name \<lparr>lb_version = '''', deployment_id = ''a'', boot_id = ''b_c''\<rparr> \<noteq>
    backup_Name \<lparr>lb_version = '''', deployment_id = ''a'', boot_id = ''c''\<rparr>"
  using backup_Name_separates [of "\<lparr>lb_version = '''', deployment_id = ''a'', boot_id = ''b_c''\<rparr>"
      "\<lparr>lb_version = '''', deployment_id = ''a'', boot_id = ''c''\<rparr>" "''a''"] by simp



definition full_store :: files where
  "full_store = (store_files [(''a_1'', 1), (''a_2'', 2)])\<lparr>ents := ents (store_files [(''a_1'', 1), (''a_2'', 2)]) @
     [(backup_path ''a_1'' @ [meta_file_name], File ''1''), (backup_path ''a_2'' @ [meta_file_name], File ''2'')]\<rparr>"

definition half_pruned :: files where
  "half_pruned = fs (snd (backup_Prune [] [''a''] (quiet full_store
     \<lparr>sched := [calm, calm, calm, calm\<lparr>plan := Crash, gap := 9, kept_part := (\<lambda>q. q = backup_path ''a_1'')\<rparr>]\<rparr>)))"


end
