(* ===== verification/Lifecycle.thy ===== *)
theory Lifecycle
imports Kubeadm Kubeclient Ostree Backup_Restore Backup_Retention
begin

text \<open>
  internal/lifecycle/boot.go: one boot, from the restore marker to the notification of systemd.  What
  the run depends on besides files is in the record \<open>env\<close>.  Log lines are kept without the newline.
\<close>

section \<open>What a boot depends on\<close>

text \<open>The programs and libraries, kubeadm's default configuration, the durations of the probes, the
  turns of the parallel wait, the order in which maps are ranged over, and the context of the caller
  as it is when each of the two waits begins.\<close>

record env =
  programs :: shell
  defaults :: "err + init_config"
  pacing :: pace
  turns :: "turn list"
  ranging :: "nat list"
  ctx_readyz :: ctx
  ctx_plane :: ctx

definition say :: "string \<Rightarrow> unit io" where
  "say s = logf (''[nanok8s] '' @ s)"

definition shortID :: "string \<Rightarrow> string" where
  "shortID i = (if length i \<le> 12 then i else take 12 i)"

definition shortPair :: "string \<Rightarrow> string \<Rightarrow> string" where
  "shortPair deploy boot = shortID deploy @ ''_'' @ shortID boot"

section \<open>Restore on request\<close>

definition restore_newest :: "shell \<Rightarrow> string \<Rightarrow> unit io" where
  "restore_newest sh currentDeployment =
     (if currentDeployment = ''''
      then after (say ''restore marker present but no booted deployment id; ignoring'')
             (ignore (WriteLastEvent ''restore requested but no deployment id''))
      else seq (LatestForDeployment currentDeployment) (\<lambda>name.
        if name = ''''
        then after (say (''restore marker present but no backup for deployment '' @ shortID currentDeployment))
               (ignore (WriteLastEvent ''restore requested but no backup for current deployment''))
        else after (say (''restoring backup '' @ name))
            (after (backup_Restore sh name)
            (seq (ReadMeta name) (\<lambda>meta.
              after (WriteLastBoot meta)
                    (ignore (WriteLastEvent (''restored backup '' @ name))))))))"

definition clear_marker :: "unit io" where
  "clear_marker = on_err ClearRestoreMarker (\<lambda>e. say (''clear restore marker failed: '' @ err_text e))"

definition maybeRestore :: "shell \<Rightarrow> string \<Rightarrow> unit io" where
  "maybeRestore sh currentDeployment =
     seq RestoreRequested (\<lambda>requested.
       if \<not> requested then return ()
       else deferred (restore_newest sh currentDeployment) clear_marker)"

section \<open>Steps of the boot\<close>

definition bootFailed :: "bool \<Rightarrow> string \<Rightarrow> string \<Rightarrow> err \<Rightarrow> 'a io" where
  "bootFailed upgrading prev self cause_err =
     after (ignore (WriteLastEvent
         (if upgrading then ''boot failed upgrading '' @ prev @ '' -> '' @ self @ '': '' @ err_text cause_err
          else ''boot failed at '' @ self @ '': '' @ err_text cause_err)))
       (raise cause_err)"

definition notify_call :: call where
  "notify_call = [Word ''daemon.SdNotify'', Word ''READY=1'']"

text \<open>The first result of SdNotify, whether there was a socket to send to, is whether the reply has
  any output.\<close>

definition notifyReady :: "shell \<Rightarrow> unit io" where
  "notifyReady sh =
     seq (extern sh notify_call) (\<lambda>r. case failure r of
         Some e \<Rightarrow> say (''sd_notify READY=1 failed (continuing): '' @ err_text e)
       | None \<Rightarrow> if stdout r \<noteq> '''' then say ''sd_notify READY=1 sent'' else return ())"

definition start_call :: call where
  "start_call = map Word [''systemctl'', ''start'', ''--no-block'', ''kubelet.service'']"

text \<open>CombinedOutput: both streams of the program.\<close>

definition combined :: "reply \<Rightarrow> string" where
  "combined r = stdout r @ stderr r"

definition startKubelet :: "shell \<Rightarrow> unit io" where
  "startKubelet sh =
     seq (extern sh start_call) (\<lambda>r. case failure r of
         Some e \<Rightarrow> raise (Text (''systemctl start kubelet: '' @ err_text e @ '': '' @ combined r))
       | None \<Rightarrow> say ''kubelet.service queued for start'')"

definition readyzTimeout :: nat where "readyzTimeout = 180000"
definition controlPlaneTimeout :: nat where "controlPlaneTimeout = 180000"

definition waitReadyz :: "env \<Rightarrow> unit io" where
  "waitReadyz env =
     after (say ''waiting for apiserver /readyz (timeout=3m0s)'')
    (seq (LoadAdmin (programs env) admin_kubeconfig) (\<lambda>cl.
       after (WaitForAPIServer (programs env) (pacing env) (with_timeout (ctx_readyz env) readyzTimeout) cl)
         (say ''apiserver ready'')))"

definition waitControlPlane :: "env \<Rightarrow> string \<Rightarrow> string \<Rightarrow> unit io" where
  "waitControlPlane env cl node =
     after (say ''waiting for node + control-plane static pods Ready (timeout=3m0s)'')
    (after (WaitForControlPlane (programs env) (turns env) (with_timeout (ctx_plane env) controlPlaneTimeout) cl node)
       (say ''control plane ready''))"

section \<open>The boot\<close>

text \<open>The snapshot of what the previous boot left.\<close>

definition snapshot_previous :: "shell \<Rightarrow> bool \<Rightarrow> bool \<Rightarrow> last_boot \<Rightarrow> string \<Rightarrow> unit io" where
  "snapshot_previous sh useBackups hadPrev prev currentBoot =
     (if useBackups \<and> hadPrev \<and> deployment_id prev \<noteq> '''' \<and> boot_id prev \<noteq> '''' \<and> boot_id prev \<noteq> currentBoot
      then after (wrapped ''create backup: '' (backup_Create sh prev))
             (say (''snapshot of previous boot saved as '' @ shortPair (deployment_id prev) (boot_id prev)))
      else return ())"

definition announce :: "bool \<Rightarrow> bool \<Rightarrow> last_boot \<Rightarrow> string \<Rightarrow> unit io" where
  "announce hadPrev upgrading prev self =
     (if \<not> hadPrev then say (''first healthy boot pending (version='' @ self @ '')'')
      else if upgrading then after (say (''upgrade path: '' @ lb_version prev @ '' -> '' @ self))
             (ignore (WriteLastEvent (''upgrading '' @ lb_version prev @ '' -> '' @ self)))
      else say (''reconcile path (version='' @ self @ '')''))"

text \<open>Everything up to the first phase of kubeadm: whether backups are used, the ids of the running
  deployment and boot, and the record of the previous one.\<close>

record boot_info =
  useBackups :: bool
  currentDeployment :: string
  currentBoot :: string
  prevBoot :: last_boot
  hadPrev :: bool

definition upgrading :: "boot_info \<Rightarrow> string \<Rightarrow> bool" where
  "upgrading i self \<longleftrightarrow> hadPrev i \<and> lb_version (prevBoot i) \<noteq> self"

definition prepare_boot :: "env \<Rightarrow> string \<Rightarrow> boot_info io" where
  "prepare_boot env self =
     seq (wrapped ''detect ostree: '' IsOSTree) (\<lambda>use.
     seq (if use then wrapped ''booted deployment id: '' (BootedDeploymentID (programs env))
          else after (say ''non-ostree system: backup/restore disabled'') (return '''')) (\<lambda>dep.
     seq BootID (\<lambda>boot.
     after (if use then wrapped ''restore: '' (maybeRestore (programs env) dep) else return ())
    (seq ReadLastBoot (\<lambda>(prev, had).
     after (snapshot_previous (programs env) use had prev boot)
    (let i = \<lparr>useBackups = use, currentDeployment = dep, currentBoot = boot, prevBoot = prev, hadPrev = had\<rparr>
     in after (announce had (upgrading i self) prev self) (return i)))))))"

text \<open>The steps whose failure makes the boot a failed one; they give the client.\<close>

definition bring_up :: "env \<Rightarrow> nanok8s_config \<Rightarrow> string \<Rightarrow> string io" where
  "bring_up env cfg node =
     after (wrapped ''ensure: '' (Ensure (programs env) (defaults env) cfg DefaultLayout node))
    (after (startKubelet (programs env))
    (after (waitReadyz env)
    (seq (EnsureAdminRBAC (programs env) DefaultLayout) (\<lambda>cl.
     after (waitControlPlane env cl node)
    (after (MarkControlPlane (programs env) cl cfg node)
      (return cl))))))"

definition prune_old :: "env \<Rightarrow> unit io" where
  "prune_old env =
     seq (attempt (AllDeploymentIDs (programs env))) (\<lambda>r. case r of
         Inl e \<Rightarrow> say (''list deployments failed (skipping prune): '' @ err_text e)
       | Inr ids \<Rightarrow> on_err (backup_Prune (ranging env) ids)
           (\<lambda>e. say (''prune failed (continuing): '' @ err_text e)))"

definition final_event :: "boot_info \<Rightarrow> string \<Rightarrow> string" where
  "final_event i self =
     (if upgrading i self then ''upgraded '' @ lb_version (prevBoot i) @ '' -> '' @ self
      else if \<not> hadPrev i then ''initialised at '' @ self else ''healthy at '' @ self)"

definition this_boot :: "boot_info \<Rightarrow> string \<Rightarrow> last_boot" where
  "this_boot i self = \<lparr>lb_version = self, deployment_id = currentDeployment i, boot_id = currentBoot i\<rparr>"

definition tidy_up :: "env \<Rightarrow> nanok8s_config \<Rightarrow> boot_info \<Rightarrow> string \<Rightarrow> unit io" where
  "tidy_up env cfg i cl =
     after (on_err (EnsureAddons (programs env) (defaults env) cfg DefaultLayout cl)
              (\<lambda>e. say (''addon reconcile failed (continuing): '' @ err_text e)))
           (if useBackups i then prune_old env else return ())"

definition record_boot :: "env \<Rightarrow> boot_info \<Rightarrow> string \<Rightarrow> unit io" where
  "record_boot env i self =
     after (WriteLastBoot (this_boot i self))
    (after (ignore (WriteLastEvent (final_event i self)))
    (after (notifyReady (programs env))
           (say ''boot complete'')))"

definition Boot :: "env \<Rightarrow> nanok8s_config \<Rightarrow> string \<Rightarrow> string \<Rightarrow> unit io" where
  "Boot env cfg node self =
     seq (prepare_boot env self) (\<lambda>i.
     seq (on_err (bring_up env cfg node) (bootFailed (upgrading i self) (lb_version (prevBoot i)) self)) (\<lambda>cl.
     after (tidy_up env cfg i cl)
           (record_boot env i self)))"

end
