(* ===== verification/Hoare.thy ===== *)
theory Hoare
imports Reason
begin

text \<open>
  Triples for computations that may fail, panic or be stopped anywhere: with their rules, a property of a
  long function is proved step by step in the order of its code.
\<close>

section \<open>Triples\<close>

text \<open>From a world with \<open>P\<close>, the run leaves a world with \<open>Q\<close> if it returns a value, and one with \<open>C\<close> wherever
  else it ends.\<close>

definition triple :: "(world \<Rightarrow> bool) \<Rightarrow> 'a io \<Rightarrow> ('a \<Rightarrow> world \<Rightarrow> bool) \<Rightarrow> (world \<Rightarrow> bool) \<Rightarrow> bool" where
  "triple P m Q C \<longleftrightarrow> (\<forall>w r v. P w \<longrightarrow> m w = (r, v) \<longrightarrow> (case r of Ok x \<Rightarrow> Q x v | _ \<Rightarrow> C v))"

lemma tripleI:
  assumes "\<And>w x v. P w \<Longrightarrow> m w = (Ok x, v) \<Longrightarrow> Q x v"
    and "\<And>w r v. P w \<Longrightarrow> m w = (r, v) \<Longrightarrow> \<forall>x. r \<noteq> Ok x \<Longrightarrow> C v"
  shows "triple P m Q C"
  unfolding triple_def
proof (intro allI impI)
  fix w r v
  assume "P w" "m w = (r, v)"
  with assms show "case r of Ok x \<Rightarrow> Q x v | _ \<Rightarrow> C v"
    by (cases r) auto
qed

lemma triple_Ok: "triple P m Q C \<Longrightarrow> P w \<Longrightarrow> m w = (Ok x, v) \<Longrightarrow> Q x v"
  unfolding triple_def by fastforce

lemma triple_stopped: "triple P m Q C \<Longrightarrow> P w \<Longrightarrow> m w = (r, v) \<Longrightarrow> \<forall>x. r \<noteq> Ok x \<Longrightarrow> C v"
  unfolding triple_def by (cases r) fastforce+

lemma triple_either: "triple P m (\<lambda>_. C) C \<Longrightarrow> P w \<Longrightarrow> m w = (r, v) \<Longrightarrow> C v"
  unfolding triple_def by (cases r) fastforce+

section \<open>Rules\<close>

lemma triple_seq:
  assumes "triple P m Q C" "\<And>x. triple (Q x) (k x) R C"
  shows "triple P (seq m k) R C"
proof (rule tripleI)
  fix w x v
  assume "P w" "seq m k w = (Ok x, v)"
  then show "R x v"
    using triple_Ok [OF assms(1)] triple_Ok [OF assms(2)] unfolding seq_Ok by blast
next
  fix w r v
  assume "P w" and run: "seq m k w = (r, v)" and r: "\<forall>x. r \<noteq> Ok x"
  from run show "C v"
  proof (cases rule: seq_cases)
    case (through x u)
    from triple_stopped [OF assms(2) triple_Ok [OF assms(1) \<open>P w\<close> through(1)] through(2) r] show ?thesis .
  next
    case (stopped r')
    from triple_stopped [OF assms(1) \<open>P w\<close> stopped(1,2)] show ?thesis .
  qed
qed

lemma triple_after: "triple P m (\<lambda>_. Q) C \<Longrightarrow> triple Q n R C \<Longrightarrow> triple P (after m n) R C"
  unfolding after_def by (rule triple_seq)

lemma triple_return: "(\<And>w. P w \<Longrightarrow> Q x w) \<Longrightarrow> triple P (return x) Q C"
  by (auto simp: triple_def return_def)

lemma triple_on_err:
  assumes "triple P m Q D" "\<And>e. triple D (h e) Q C" "\<And>w. D w \<Longrightarrow> C w"
  shows "triple P (on_err m h) Q C"
  unfolding triple_def on_err_def
proof (intro allI impI)
  fix w r v
  assume P: "P w" and run: "(case m w of (Err e, x) \<Rightarrow> h e x | x \<Rightarrow> x) = (r, v)"
  obtain s x where m: "m w = (s, x)"
    by fastforce
  from assms(1) P m have s: "case s of Ok y \<Rightarrow> Q y x | _ \<Rightarrow> D x"
    unfolding triple_def by blast
  show "case r of Ok x \<Rightarrow> Q x v | _ \<Rightarrow> C v"
  proof (cases s)
    case (Err e)
    with s have "D x"
      by simp
    moreover have "h e x = (r, v)"
      using run m Err by simp
    ultimately show ?thesis
      using assms(2) unfolding triple_def by blast
  qed (use run m s assms(3) in auto)
qed

lemma triple_raise: "(\<And>w. P w \<Longrightarrow> C w) \<Longrightarrow> triple P (raise e) Q C"
  by (auto simp: triple_def raise_def)

lemma triple_wrapped: "triple P m Q C \<Longrightarrow> triple P (wrapped s m) Q C"
  unfolding wrapped_def by (rule triple_on_err) (auto intro: triple_raise)

lemma triple_if: "triple P m Q C \<Longrightarrow> triple P n Q C \<Longrightarrow> triple P (if b then m else n) Q C"
  by simp

lemma triple_weaken:
  "\<lbrakk>triple P m Q C; \<And>w. P' w \<Longrightarrow> P w; \<And>x w. Q x w \<Longrightarrow> Q' x w; \<And>w. C w \<Longrightarrow> C' w\<rbrakk> \<Longrightarrow> triple P' m Q' C'"
  unfolding triple_def by (fastforce split: res.splits)

lemma triple_pre: "triple P m Q C \<Longrightarrow> (\<And>w. P' w \<Longrightarrow> P w) \<Longrightarrow> triple P' m Q C"
  by (rule triple_weaken)

lemma triple_deferred:
  assumes "triple P m (\<lambda>_. C) C" "triple C d (\<lambda>_. C) C"
  shows "triple P (deferred m d) (\<lambda>_. C) C"
proof -
  have "C v" if "P w" and run: "deferred m d w = (r, v)" for w r v
    using run
  proof (cases rule: deferred_cases)
    case (1 r' u)
    with triple_either [OF assms(1) \<open>P w\<close>] triple_either [OF assms(2)] show ?thesis
      by blast
  qed
  then show ?thesis
    by (intro tripleI) blast+
qed

lemma triple_when: "(V \<Longrightarrow> triple P m Q C) \<Longrightarrow> triple (\<lambda>w. P w \<and> V) m Q C"
  unfolding triple_def by blast

text \<open>Two facts about one run, a fact about the value, and what every step keeps.\<close>

lemma triple_conj: "triple P m Q C \<Longrightarrow> triple P' m Q' C' \<Longrightarrow>
    triple (\<lambda>w. P w \<and> P' w) m (\<lambda>x w. Q x w \<and> Q' x w) (\<lambda>w. C w \<and> C' w)"
  unfolding triple_def by (fastforce split: res.splits)

lemma triple_value:
  "triple P m Q C \<Longrightarrow> (\<And>w x v. P w \<Longrightarrow> m w = (Ok x, v) \<Longrightarrow> V x v) \<Longrightarrow> triple P m (\<lambda>x w. Q x w \<and> V x w) C"
  unfolding triple_def by (fastforce split: res.splits)

lemma triple_keeps: "(\<And>w r v. I w \<Longrightarrow> m w = (r, v) \<Longrightarrow> I v) \<Longrightarrow> triple I m (\<lambda>_. I) I"
  by (rule tripleI) blast+

lemma triple_guarantees:
  assumes "guarantees R m" "\<And>f g. J f \<Longrightarrow> R f g \<Longrightarrow> J g"
  shows "triple (\<lambda>w. J (fs w)) m (\<lambda>_ w. J (fs w)) (\<lambda>w. J (fs w))"
  by (rule triple_keeps) (use assms guaranteesD in blast)

end
