(* ===== verification/Boot_Safety.thy ===== *)
theory Boot_Safety
imports Lifecycle Hoare
begin

text \<open>
  What a boot does at every failure and crash: which files it keeps, which calls it makes, and when it
  records itself as healthy.
\<close>

section \<open>The contract of the programs\<close>

text \<open>cp does what its manual says; every other program and library leaves the tree of nanok8s under
  /var/lib/nanok8s alone and keeps the file system well-formed.\<close>

definition not_cp :: "call \<Rightarrow> bool" where
  "not_cp c \<longleftrightarrow> c = [] \<or> hd c \<noteq> Word ''cp''"

definition programs_contract :: "shell \<Rightarrow> bool" where
  "programs_contract sh \<longleftrightarrow> cp_contract sh \<and> confined sh not_cp (- below nanok8s_var_dir)"

section \<open>What the steps of a boot keep\<close>

text \<open>In a well-formed file system whose backups have clean names, which it stays, the paths of \<open>X\<close> keep
  their entries.\<close>

definition keeps_paths :: "path set \<Rightarrow> files \<Rightarrow> files \<Rightarrow> bool" where
  "keeps_paths X f g \<longleftrightarrow> (wf_files f \<and> clean_backups f \<longrightarrow>
     wf_files g \<and> clean_backups g \<and> (\<forall>q \<in> X. lookup g q = lookup f q))"

interpretation keeping: files_rel "keeps_paths X" for X
  by unfold_locales (auto simp: keeps_paths_def)

lemmas [guar] = keeping.gu_rules

lemma keeps_pathsD:
  assumes "keeps_paths X f g" "wf_files f" "clean_backups f"
  shows "wf_files g" "clean_backups g" "q \<in> X \<Longrightarrow> lookup g q = lookup f q"
  using assms by (simp_all add: keeps_paths_def)

lemma keeping_unchanged: "guarantees unchanged m \<Longrightarrow> guarantees (keeps_paths X) m"
  by (simp add: guarantees_def unchanged_def keeping.rel_refl)

definition odd_backups :: "path set" where
  "odd_backups = {backups_dir @ n # q |n q. \<not> simple_name n}"

lemma same_outside_keeps:
  assumes "same_outside A f g" "wf_files f \<Longrightarrow> wf_files g" "A \<inter> X = {}" "A \<inter> odd_backups = {}"
  shows "keeps_paths X f g"
  unfolding keeps_paths_def
proof (intro impI conjI ballI)
  assume "wf_files f \<and> clean_backups f"
  then show "wf_files g"
    using assms(2) by blast
  show "clean_backups g"
    unfolding clean_backups_def
  proof (intro allI impI)
    fix n
    assume n: "lookup g (backup_path n) \<noteq> None"
    show "simple_name n"
    proof (rule ccontr)
      assume odd: "\<not> simple_name n"
      then have "backup_path n \<in> odd_backups"
        by (auto simp: odd_backups_def)
      then have "lookup g (backup_path n) = lookup f (backup_path n)"
        using assms(1,4) by (auto simp: same_outside_def)
      with odd n \<open>wf_files f \<and> clean_backups f\<close> show False
        by (auto simp: clean_backups_def)
    qed
  qed
  show "lookup g q = lookup f q" if "q \<in> X" for q
    using that assms(1,3) by (auto simp: same_outside_def)
qed

lemma outside_keeps:
  "\<lbrakk>guarantees (same_outside A) m; guarantees keeps_wf m; A \<inter> X = {}; A \<inter> odd_backups = {}\<rbrakk> \<Longrightarrow>
     guarantees (keeps_paths X) m"
  unfolding guarantees_def by (intro allI same_outside_keeps) (auto simp: keeps_wf_def)

lemma odd_below: "odd_backups \<subseteq> below nanok8s_var_dir"
  by (auto simp: odd_backups_def backups_dir_def)

lemma keeping_extern:
  assumes "programs_contract sh" "not_cp c" "X \<subseteq> below nanok8s_var_dir"
  shows "guarantees (keeps_paths X) (extern sh c)"
  using outside_confined [of sh not_cp _ c] wf_confined [of sh not_cp _ c] assms odd_below
  by (intro outside_keeps [where A = "- below nanok8s_var_dir"]) (auto simp: programs_contract_def)

lemma keeping_lib_call:
  assumes "programs_contract sh" "not_cp c" "X \<subseteq> below nanok8s_var_dir"
  shows "guarantees (keeps_paths X) (lib_call sh pre c)"
  unfolding lib_call_def
  using keeping_extern [OF assms] by (auto intro!: guar split: option.split)

lemma keeping_phase:
  assumes "programs_contract sh" "not_cp c" "X \<subseteq> below nanok8s_var_dir"
  shows "guarantees (keeps_paths X) (phase sh pre c)"
  unfolding phase_def using keeping_lib_call [OF assms] by (intro guar)

lemma phases_not_cp: "is_phase c \<Longrightarrow> not_cp c"
  using phase_not_cp by (auto simp: not_cp_def)

lemma layout_above: "d \<in> set (layout_dirs DefaultLayout) \<Longrightarrow> above d \<subseteq> - below nanok8s_var_dir"
  by (auto simp: layout_dirs_def DefaultLayout_def paths_defs prefix_def Cons_eq_append_conv append_eq_Cons_conv)

lemma keeping_Ensure:
  assumes "programs_contract sh" "X \<subseteq> below nanok8s_var_dir"
  shows "guarantees (keeps_paths X) (Ensure sh dflt cfg DefaultLayout node)"
proof (rule outside_keeps)
  have c: "confined sh not_cp (- below nanok8s_var_dir)"
    using assms(1) by (simp add: programs_contract_def)
  show "guarantees (same_outside (- below nanok8s_var_dir)) (Ensure sh dflt cfg DefaultLayout node)"
    by (rule outside_Ensure [OF c phases_not_cp layout_above])
  show "guarantees keeps_wf (Ensure sh dflt cfg DefaultLayout node)"
    by (rule wf_Ensure [OF c phases_not_cp])
qed (use assms(2) odd_below in auto)

lemma state_zone_apart: "write_zone state_dir \<union> below last_event_file \<subseteq> - odd_backups"
  by (auto simp: write_zone_def temp_files_def odd_backups_def paths_defs prefix_def Cons_eq_append_conv append_eq_Cons_conv)

lemma keeping_event:
  assumes "X \<inter> (write_zone state_dir \<union> below last_event_file) = {}"
  shows "guarantees (keeps_paths X) (WriteLastEvent s)"
proof (rule outside_keeps)
  show "guarantees (same_outside (write_zone state_dir \<union> below last_event_file)) (WriteLastEvent s)"
    unfolding WriteLastEvent_def last_event_split by (rule outside_write_atomic) auto
  show "guarantees keeps_wf (WriteLastEvent s)"
    unfolding WriteLastEvent_def by (rule wf_write_atomic)
qed (use assms state_zone_apart in auto)

lemma simple_tmp: "simple_name s \<Longrightarrow> simple_name (s @ ''.tmp'')"
  by (cases s) (auto simp: simple_name_def)

lemma keeping_Create:
  assumes cp: "cp_contract sh" and n: "simple_name (backup_Name meta)"
    and X: "X \<inter> (create_zone (backups_dir @ [backup_Name meta @ ''.tmp'']) \<union> below (backup_path (backup_Name meta))) = {}"
  shows "guarantees (keeps_paths X) (backup_Create sh meta)"
  unfolding guarantees_def
proof
  fix w
  let ?z = "create_zone (backups_dir @ [backup_Name meta @ ''.tmp'']) \<union> below (backup_path (backup_Name meta))"
  obtain r v where run: "backup_Create sh meta w = (r, v)"
    by fastforce
  have odd: "?z \<inter> odd_backups = {}"
    using n simple_tmp [OF n] by (auto simp: create_zone_def odd_backups_def prefix_def backups_dir_def)
  have "keeps_paths X (fs w) (fs v)"
  proof (cases "wf_files (fs w)")
    case True
    have "same_outside ?z (fs w) (fs v)"
      using cp n run True refl refl
    proof (cases rule: backup_Create_cases)
      case kept
      show ?thesis
        by (rule same_outside_mono [OF kept(1)]) simp
    qed simp
    moreover have "wf_files (fs v)"
      using guaranteesD [OF wf_backup_Create [OF cp n] run] True by (simp add: keeps_wf_def)
    ultimately show ?thesis
      using X odd by (intro same_outside_keeps [where A = ?z]) auto
  qed (simp add: keeps_paths_def)
  with run show "keeps_paths X (fs w) (fs (snd (backup_Create sh meta w)))"
    by simp
qed

lemma keeping_Prune:
  assumes "X \<inter> names_zone UNIV = {}"
  shows "guarantees (keeps_paths X) (backup_Prune picks known)"
  unfolding guarantees_def
proof
  fix w
  obtain r v where run: "backup_Prune picks known w = (r, v)"
    by fastforce
  have "keeps_paths X (fs w) (fs v)" if w: "wf_files (fs w)" "clean_backups (fs w)"
  proof -
    have simple: "simple_name n" if "is_backup (fs w) n" for n
      using that w(2) by (auto simp: clean_backups_def is_backup_def is_dir_def)
    obtain N where N: "prunes N (fs w) (fs v)" "\<forall>n \<in> N. is_backup (fs w) n"
      using run w
    proof (cases rule: backup_Prune_cases)
      case (stopped N)
      with that show thesis
        by blast
    next
      case (pruned gs N ns u)
      have "prunes {n. is_backup (fs w) n} (fs w) (fs u)"
        by (rule prunes_mono [OF pruned(5)]) (use pruned(1,4) in \<open>auto simp: unknown_def\<close>)
      moreover have "set g \<subseteq> {n. is_backup (fs w) n}" if "(d, g) \<in> set gs" for d g
        using groups_of_mem(2) [OF pruned(3) that] pruned(1) by auto
      then have "(\<Union>(d, g) \<in> set gs. set g) \<subseteq> {n. is_backup (fs w) n}"
        by blast
      then have "prunes {n. is_backup (fs w) n} (fs u) (fs v)"
        using prunes_mono pruned(7) by blast
      ultimately show thesis
        using that [of "{n. is_backup (fs w) n}"] pruning.rel_trans by blast
    qed
    have "names_zone N \<inter> odd_backups = {}"
      using N(2) simple by (auto simp: odd_backups_def)
    moreover have "names_zone N \<inter> X = {}"
      using assms names_zone_mono [of N UNIV] by auto
    ultimately show ?thesis
      using prunesD(1,4) [OF N(1)] by (intro same_outside_keeps)
  qed
  with run show "keeps_paths X (fs w) (fs (snd (backup_Prune picks known w)))"
    by (cases "wf_files (fs w) \<and> clean_backups (fs w)") (auto simp: keeps_paths_def)
qed

section \<open>The steps one by one\<close>

text \<open>Paths of nanok8s that the record of events does not touch.\<close>

definition quiet_paths :: "path set \<Rightarrow> bool" where
  "quiet_paths X \<longleftrightarrow> X \<subseteq> below nanok8s_var_dir \<and> X \<inter> (write_zone state_dir \<union> below last_event_file) = {}"

lemma not_cp_calls [simp]:
  "not_cp status_call" "not_cp start_call" "not_cp notify_call" "not_cp (rest_config_call p)" "not_cp (clientset_call s)"
  "not_cp (readyz_call s)" "not_cp (rbac_call l)" "not_cp (mark_call s c node)" "not_cp (dns_call kc s)"
  "not_cp (proxy_call kc s)" "not_cp (node_query s node)" "not_cp (pod_query s pod)"
  by (simp_all add: not_cp_def status_call_def start_call_def notify_call_def rest_config_call_def clientset_call_def
      readyz_call_def rbac_call_def mark_call_def dns_call_def proxy_call_def node_query_def pod_query_def)

lemma checks_not_cp [simp]: "c \<in> set (control_plane_checks cl node) \<Longrightarrow> not_cp (query c)"
  by (auto simp: control_plane_checks_def)

lemma keeping_say [guar]: "guarantees (keeps_paths X) (say s)"
  unfolding say_def by (rule guar)

lemma keeping_IsOSTree [guar]: "guarantees (keeps_paths X) IsOSTree"
  by (rule keeping_unchanged) (rule guar)

lemma keeping_ReadLastBoot [guar]: "guarantees (keeps_paths X) ReadLastBoot"
  unfolding ReadLastBoot_def by (intro guar) (auto intro!: guar split: sum.split)

lemma keeping_BootID [guar]: "guarantees (keeps_paths X) BootID"
  unfolding BootID_def by (intro guar)

lemma keeping_RestoreRequested [guar]: "guarantees (keeps_paths X) RestoreRequested"
  unfolding RestoreRequested_def by (intro guar) (auto intro!: guar split: sum.split)

lemma keeping_steps:
  assumes "programs_contract sh" "X \<subseteq> below nanok8s_var_dir"
  shows "guarantees (keeps_paths X) (BootedDeploymentID sh)" "guarantees (keeps_paths X) (AllDeploymentIDs sh)"
    "guarantees (keeps_paths X) (startKubelet sh)" "guarantees (keeps_paths X) (LoadAdmin sh p)"
    "guarantees (keeps_paths X) (wait_rounds sh cl pc why i lft)"
    "guarantees (keeps_paths X) (WaitForControlPlane sh ts tc cl node)"
    "guarantees (keeps_paths X) (EnsureAdminRBAC sh l)" "guarantees (keeps_paths X) (MarkControlPlane sh cl cfg node)"
    "guarantees (keeps_paths X) (EnsureAddons sh dflt cfg l cl)" "guarantees (keeps_paths X) (notifyReady sh)"
  unfolding BootedDeploymentID_def AllDeploymentIDs_def allDeployments_def startKubelet_def LoadAdmin_def
    EnsureAdminRBAC_def MarkControlPlane_def EnsureAddons_def BuildInitConfiguration_def notifyReady_def
  by (auto intro!: guar keeping_extern [OF assms(1) _ assms(2)] keeping_lib_call [OF assms(1) _ assms(2)]
      keeping_phase [OF assms(1) _ assms(2)] keeping.gu_wait_rounds keeping.gu_WaitForControlPlane
      split: option.split sum.split)

lemma keeping_event':
  assumes "quiet_paths X"
  shows "guarantees (keeps_paths X) (WriteLastEvent s)"
  by (rule keeping_event) (use assms in \<open>simp add: quiet_paths_def\<close>)

lemma keeping_bring_up:
  assumes "programs_contract (programs env)" "X \<subseteq> below nanok8s_var_dir"
  shows "guarantees (keeps_paths X) (bring_up env cfg node)"
  unfolding bring_up_def waitReadyz_def waitControlPlane_def WaitForAPIServer_def
  by (intro guar keeping_Ensure keeping_steps assms)

lemma keeping_bootFailed:
  assumes "quiet_paths X"
  shows "guarantees (keeps_paths X) (bootFailed u p s e)"
  unfolding bootFailed_def by (intro guar keeping_event' assms)

lemma keeping_prune_old:
  assumes "programs_contract (programs env)" "X \<subseteq> below nanok8s_var_dir" "X \<inter> names_zone UNIV = {}"
  shows "guarantees (keeps_paths X) (prune_old env)"
  unfolding prune_old_def
  by (auto intro!: guar keeping_steps assms keeping_Prune split: sum.split)

lemma keeping_tidy_up:
  assumes "programs_contract (programs env)" "X \<subseteq> below nanok8s_var_dir"
    "useBackups i \<Longrightarrow> X \<inter> names_zone UNIV = {}"
  shows "guarantees (keeps_paths X) (tidy_up env cfg i cl)"
  unfolding tidy_up_def
  using assms by (auto intro!: guar keeping_steps keeping_prune_old)

lemma keeping_announce:
  assumes "quiet_paths X"
  shows "guarantees (keeps_paths X) (announce had up prev self)"
  unfolding announce_def by (auto intro!: guar keeping_event' assms)

section \<open>The part before kubeadm\<close>

lemma quiet_record: "quiet_paths {last_boot_file}" "{last_boot_file} \<inter> names_zone UNIV = {}"
  "quiet_paths {last_boot_file, restore_marker}"
  using target_not_in_zone [of "''last-boot.json''" state_dir "[]"]
  by (auto simp: quiet_paths_def names_zone_def paths_defs write_zone_def temp_files_def prefix_def Cons_eq_append_conv append_eq_Cons_conv)

lemma no_restore:
  assumes "maybeRestore sh dep w = (r, v)" "look w restore_marker = None"
  shows "fs v = fs w"
  using assms unfolding maybeRestore_def
proof (cases rule: seq_cases)
  case (through b u)
  then have "\<not> b" "fs u = fs w"
    using assms(2) by (auto simp: RestoreRequested_def run_simps split: if_splits dest!: stat_Ok stat_Err)
  with through(2) show ?thesis
    by (simp add: run_simps)
next
  case (stopped r')
  have "guarantees unchanged RestoreRequested"
    unfolding RestoreRequested_def by (intro guar) (auto intro!: guar split: sum.split)
  from guaranteesD [OF this stopped(1)] show ?thesis
    by (simp add: unchanged_def)
qed

text \<open>The record of the previous boot names a backup by one component.\<close>

definition record_ok :: "files \<Rightarrow> bool" where
  "record_ok f \<longleftrightarrow> (case lookup f last_boot_file of
      Some (File c) \<Rightarrow> (case unmarshal_last_boot c of Inr lb \<Rightarrow> simple_name (backup_Name lb) | Inl e \<Rightarrow> True)
    | _ \<Rightarrow> True)"

lemma ReadLastBoot_Ok:
  "ReadLastBoot w = (Ok (prev, had), v) \<Longrightarrow> fs v = fs w \<and>
     (if had then \<exists>c. look w last_boot_file = Some (File c) \<and> unmarshal_last_boot c = Inr prev
      else look w last_boot_file = None \<and> prev = zero_last_boot)"
proof -
  assume "ReadLastBoot w = (Ok (prev, had), v)"
  then consider c u where "read_file last_boot_file w = (Ok c, u)"
      "(case unmarshal_last_boot c of Inl e \<Rightarrow> raise (Wrap ''parse last-boot: '' e []) | Inr lb \<Rightarrow> return (lb, True)) u =
         (Ok (prev, had), v)"
    | e u where "read_file last_boot_file w = (Err e, u)"
      "(if is_not_exist e then return (zero_last_boot, False) else raise (Wrap ''read last-boot: '' e [])) u =
         (Ok (prev, had), v)"
    unfolding ReadLastBoot_def seq_Ok attempt_Ok by fastforce
  then show ?thesis
  proof cases
    case 1
    with read_file_Ok [OF 1(1)] show ?thesis
      by (auto simp: run_simps split: sum.splits)
  next
    case 2
    with read_file_Err [OF 2(1)] show ?thesis
      by (auto simp: run_simps split: if_splits)
  qed
qed

text \<open>Compared with the file system at the start of the boot, nothing at \<open>X\<close> has changed.\<close>

abbreviation kept :: "path set \<Rightarrow> files \<Rightarrow> world \<Rightarrow> bool" where
  "kept X f w \<equiv> keeps_paths X f (fs w)"

lemma kept_record: "kept {last_boot_file} f w \<Longrightarrow> wf_files f \<Longrightarrow> clean_backups f \<Longrightarrow> look w last_boot_file = lookup f last_boot_file"
  by (rule keeps_pathsD(3) [OF _ _ _ singletonI])

lemma kept_mono: "kept X f w \<Longrightarrow> Y \<subseteq> X \<Longrightarrow> kept Y f w"
  by (auto simp: keeps_paths_def)

lemma kept_step:
  assumes "guarantees (keeps_paths X) m" "Y \<subseteq> X"
  shows "triple (kept X f) m (\<lambda>_. kept X f) (kept Y f)"
proof -
  have "triple (kept X f) m (\<lambda>_. kept X f) (kept X f)"
    by (rule triple_guarantees [OF assms(1)]) (rule keeping.rel_trans)
  then show ?thesis
    by (rule triple_weaken) (use assms(2) in \<open>auto intro: kept_mono\<close>)
qed

lemma kept_deployment:
  assumes "programs_contract sh" "X \<subseteq> below nanok8s_var_dir" "Y \<subseteq> X"
  shows "triple (kept X f) (if use then wrapped s (BootedDeploymentID sh) else after (say t) (return ''''))
    (\<lambda>dep w. kept X f w \<and> (use \<or> dep = '''')) (kept Y f)"
proof (rule triple_value [OF kept_step [OF _ assms(3)]])
  show "guarantees (keeps_paths X) (if use then wrapped s (BootedDeploymentID sh) else after (say t) (return ''''))"
    by (auto intro!: guar keeping_steps assms(1,2))
qed (auto simp: run_simps split: if_splits)

lemma kept_restore:
  assumes "wf_files f" "clean_backups f" "lookup f restore_marker = None" "restore_marker \<in> X" "Y \<subseteq> X"
  shows "triple (kept X f) (if use then wrapped s (maybeRestore sh dep) else return ()) (\<lambda>_. kept X f) (kept Y f)"
proof -
  have "triple (kept X f) (maybeRestore sh dep) (\<lambda>_. kept X f) (kept X f)"
  proof (rule triple_keeps)
    fix w r v
    assume k: "kept X f w" and run: "maybeRestore sh dep w = (r, v)"
    from keeps_pathsD(3) [OF k assms(1,2,4)] assms(3) have "look w restore_marker = None"
      by simp
    with no_restore [OF run] k show "kept X f v"
      by simp
  qed
  then have "triple (kept X f) (if use then wrapped s (maybeRestore sh dep) else return ()) (\<lambda>_. kept X f) (kept X f)"
    by (auto intro: triple_if triple_wrapped triple_return)
  then show ?thesis
    by (rule triple_weaken) (use assms(5) in \<open>auto intro: kept_mono\<close>)
qed

lemma kept_read:
  assumes "wf_files f" "clean_backups f" "record_ok f" "last_boot_file \<in> X" "Y \<subseteq> X"
  shows "triple (kept X f) ReadLastBoot (\<lambda>ph w. kept X f w \<and> (snd ph \<longrightarrow> simple_name (backup_Name (fst ph)))) (kept Y f)"
proof (rule triple_value [OF kept_step [OF keeping_ReadLastBoot assms(5)]])
  fix w ph v
  assume k: "kept X f w" and run: "ReadLastBoot w = (Ok ph, v)"
  from keeps_pathsD(3) [OF k assms(1,2,4)] assms(3) show "snd ph \<longrightarrow> simple_name (backup_Name (fst ph))"
    using ReadLastBoot_Ok [of w "fst ph" "snd ph" v] run by (auto simp: record_ok_def)
qed

lemma keeping_snapshot:
  assumes "programs_contract sh" "had \<longrightarrow> simple_name (backup_Name prev)"
  shows "guarantees (keeps_paths {last_boot_file}) (snapshot_previous sh use had prev boot)"
  unfolding snapshot_previous_def using assms quiet_record(2)
  by (auto intro!: guar keeping_Create simp: programs_contract_def create_zone_def paths_defs prefix_def Cons_eq_append_conv)

lemma prepare_boot_kept:
  assumes c: "programs_contract (programs env)"
    and f: "wf_files f" "clean_backups f" "lookup f restore_marker = None" "record_ok f"
  shows "triple (kept {last_boot_file, restore_marker} f) (prepare_boot env self)
    (\<lambda>i w. kept {last_boot_file} f w \<and> (useBackups i \<or> currentDeployment i = '''')) (kept {last_boot_file} f)"
proof -
  let ?X = "{last_boot_file, restore_marker}" and ?Y = "{last_boot_file}"
  have Y: "?Y \<subseteq> ?X" and X: "?X \<subseteq> below nanok8s_var_dir"
    using quiet_record(3) by (auto simp: quiet_paths_def)
  note read = triple_pre [OF kept_read [OF f(1,2,4)]]
  have rest: "triple (kept ?X f) (after (snapshot_previous (programs env) use had prev boot)
      (after (announce had (upgrading i self) prev self) (return i)))
      (\<lambda>i w. kept ?Y f w \<and> (useBackups i \<or> currentDeployment i = '''')) (kept ?Y f)"
    if "had \<longrightarrow> simple_name (backup_Name prev)" "useBackups i \<or> currentDeployment i = ''''" for "use" had prev boot i
  proof (rule triple_pre [OF triple_after [OF _ triple_after [OF _ triple_return]] kept_mono [OF _ Y]])
    show "triple (kept ?Y f) (snapshot_previous (programs env) use had prev boot) (\<lambda>_. kept ?Y f) (kept ?Y f)"
      by (rule kept_step [OF keeping_snapshot [OF c that(1)] subset_refl])
    show "triple (kept ?Y f) (announce had (upgrading i self) prev self) (\<lambda>_. kept ?Y f) (kept ?Y f)"
      by (rule kept_step [OF keeping_announce [OF quiet_record(1)] subset_refl])
  qed (use that(2) in simp_all)
  show ?thesis
    unfolding prepare_boot_def Let_def case_prod_unfold
    by (intro triple_seq [OF triple_wrapped [OF kept_step [OF keeping_IsOSTree Y]]] triple_seq [OF kept_deployment [OF c X Y]]
        triple_when triple_seq [OF kept_step [OF keeping_BootID Y]] triple_after [OF kept_restore [OF f(1-3) _ Y]]
        triple_seq [OF kept_read [OF f(1,2,4) _ Y]] rest) auto
qed

lemma prepare_boot_keeps:
  assumes "programs_contract (programs env)"
    and "wf_files (fs w)" "clean_backups (fs w)" "look w restore_marker = None" "record_ok (fs w)"
    and run: "prepare_boot env self w = (r, v)"
  shows "keeps_paths {last_boot_file} (fs w) (fs v)"
proof -
  note t = prepare_boot_kept [OF assms(1-5)]
  have "triple (kept {last_boot_file, restore_marker} (fs w)) (prepare_boot env self)
      (\<lambda>_. kept {last_boot_file} (fs w)) (kept {last_boot_file} (fs w))"
    by (rule triple_weaken [OF t]) auto
  from triple_either [OF this keeping.rel_refl run] show ?thesis .
qed

section \<open>The calls of a boot\<close>

definition plain_call :: "call \<Rightarrow> bool" where
  "plain_call c \<longleftrightarrow> not_cp c \<and> c \<noteq> status_call \<and> c \<noteq> notify_call"

lemma plain_calls [simp]:
  "plain_call start_call" "plain_call (rest_config_call p)" "plain_call (clientset_call s)"
  "plain_call (readyz_call s)" "plain_call (rbac_call l)" "plain_call (mark_call s c node)" "plain_call (dns_call kc s)"
  "plain_call (proxy_call kc s)" "plain_call (node_query s node)" "plain_call (pod_query s pod)"
  by (simp_all add: plain_call_def not_cp_def status_call_def start_call_def notify_call_def rest_config_call_def
      clientset_call_def readyz_call_def rbac_call_def mark_call_def dns_call_def proxy_call_def node_query_def pod_query_def)

lemma checks_plain [simp]: "c \<in> set (control_plane_checks cl node) \<Longrightarrow> plain_call (query c)"
  by (auto simp: control_plane_checks_def)

lemma phase_plain: "is_phase c \<Longrightarrow> plain_call c"
  using phases_not_cp [of c]
  by (cases c rule: is_phase.cases) (auto simp: plain_call_def status_call_def notify_call_def kubeadm_phases_def)

lemma calls_state [guar]:
  "only_calls Q (say s)" "only_calls Q (write_atomic p d)" "only_calls Q (WriteLastEvent s)" "only_calls Q (WriteLastBoot lb)"
  "only_calls Q ReadLastBoot" "only_calls Q BootID" "only_calls Q IsOSTree" "only_calls Q RestoreRequested"
  "only_calls Q ClearRestoreMarker" "only_calls Q clear_marker" "only_calls Q (ReadMeta n)"
  unfolding say_def write_atomic_def write_steps_def closing_def WriteLastEvent_def WriteLastBoot_def ReadLastBoot_def BootID_def
    IsOSTree_def RestoreRequested_def ClearRestoreMarker_def clear_marker_def ReadMeta_def
  by (auto intro!: guar split: sum.split)

lemma calls_stamp_all [guar]: "only_calls Q (stamp_all ns)"
  by (induction ns) (auto intro!: guar)

lemma calls_insert_newer [guar]: "only_calls Q (insert_newer x ys)"
  by (induction ys) (auto intro!: guar simp: newer_def split: sum.split)

lemma calls_sort_newest [guar]: "only_calls Q (sort_newest xs)"
proof -
  have "only_calls Q (sort_newest_onto ys xs)" for ys
    by (induction xs arbitrary: ys) (auto intro!: guar)
  then show ?thesis
    by (simp add: sort_newest_def)
qed

lemma calls_prune_unknown [guar]: "only_calls Q (prune_unknown known ns gs)"
  by (induction ns arbitrary: gs) (auto intro!: guar simp: remove_backup_def Let_def)

lemma calls_backups [guar]: "only_calls Q backup_List" "only_calls Q (LatestForDeployment d)" "only_calls Q (backup_Prune picks known)"
  unfolding backup_Prune_def prune_group_def LatestForDeployment_def backup_List_def
  by (auto intro!: guar simp: remove_backup_def split: sum.split)

lemma calls_plain:
  assumes "\<And>c. plain_call c \<Longrightarrow> Q c"
  shows "only_calls Q (bring_up env cfg node)" "only_calls Q (bootFailed u p s e)" "only_calls Q (announce had up prev self)"
    "only_calls Q (EnsureAddons sh dflt cfg l cl)"
proof -
  have "only_calls Q (Ensure sh dflt cfg l n)" for sh dflt cfg l n
    by (rule only_calls_Ensure) (rule assms [OF phase_plain])
  then show "only_calls Q (bring_up env cfg node)"
    unfolding bring_up_def waitReadyz_def waitControlPlane_def WaitForAPIServer_def startKubelet_def LoadAdmin_def
      EnsureAdminRBAC_def MarkControlPlane_def
    by (auto intro!: guar phase_guarantees(3) calling.re_wait_rounds calling.re_WaitForControlPlane assms split: option.split)
  show "only_calls Q (bootFailed u p s e)" "only_calls Q (announce had up prev self)"
    unfolding bootFailed_def announce_def by (auto intro!: guar)
  show "only_calls Q (EnsureAddons sh dflt cfg l cl)"
    unfolding EnsureAddons_def BuildInitConfiguration_def
    by (auto intro!: guar phase_guarantees(3) assms split: sum.split)
qed

lemma calls_status:
  assumes "Q status_call"
  shows "only_calls Q (BootedDeploymentID sh)" "only_calls Q (AllDeploymentIDs sh)"
  unfolding BootedDeploymentID_def AllDeploymentIDs_def allDeployments_def
  by (auto intro!: guar assms split: option.split sum.split)

lemma calls_copies:
  assumes "\<And>fl s d. Q (cp_call fl s d)"
  shows "only_calls Q (backup_Create sh meta)" "only_calls Q (backup_Restore sh name)"
  unfolding backup_Create_def fill_snapshot_def or_rollback_def rollbackTmp_def backup_Exists_def writeMeta_def
    backup_Restore_def restoreDir_def restore_kubelet_file_def replaceFile_def
    copyDirIfExists_def copyFileIfExists_def copyTree_def copyFile_def runCp_def Let_def
  by (auto intro!: guar assms split: option.split sum.split)

lemma not_notify [simp]: "status_call \<noteq> notify_call" "cp_call fl s d \<noteq> notify_call"
  by (simp_all add: status_call_def notify_call_def cp_call_def)

lemma calls_restore:
  assumes "\<And>fl s d. Q (cp_call fl s d)"
  shows "only_calls Q (maybeRestore sh dep)"
  unfolding maybeRestore_def restore_newest_def
  by (auto intro!: guar calls_copies assms)

lemma calls_prepare:
  assumes "\<And>fl s d. Q (cp_call fl s d)" "Q status_call" "\<And>c. plain_call c \<Longrightarrow> Q c"
  shows "only_calls Q (prepare_boot env self)"
  unfolding prepare_boot_def snapshot_previous_def Let_def
  by (auto intro!: guar calls_restore calls_copies calls_status calls_plain assms)

lemma calls_tidy_up:
  assumes "useBackups i \<Longrightarrow> Q status_call" "\<And>c. plain_call c \<Longrightarrow> Q c"
  shows "only_calls Q (tidy_up env cfg i cl)"
proof -
  have "only_calls Q (prune_old env)" if "useBackups i"
    unfolding prune_old_def using calls_status [of Q] assms(1) that by (auto intro!: guar split: sum.split)
  then show ?thesis
    unfolding tidy_up_def by (auto intro!: guar calls_plain assms(2))
qed

section \<open>When a boot is recorded\<close>

lemma grows_prefix: "grows Q h i \<Longrightarrow> prefix h i"
  by (auto simp: grows_def)

lemma calls_prefix: "only_calls (\<lambda>_. True) m \<Longrightarrow> m w = (r, v) \<Longrightarrow> prefix (trace w) (trace v)"
  using relatesD grows_prefix by blast

lemma bring_up_Ok:
  assumes "bring_up env cfg node w = (Ok cl, v)"
  shows "\<forall>q \<in> healthy_queries cl node. answered_ready (programs env) (trace w) (trace v) q"
proof -
  let ?sh = "programs env"
  from assms obtain a b c d e where
    e: "wrapped ''ensure: '' (Ensure ?sh (defaults env) cfg DefaultLayout node) w = (Ok (), a)" and
    k: "startKubelet ?sh a = (Ok (), b)" and r: "waitReadyz env b = (Ok (), c)" and
    b: "EnsureAdminRBAC ?sh DefaultLayout c = (Ok cl, d)" and
    p: "waitControlPlane env cl node d = (Ok (), e)" and m: "MarkControlPlane ?sh cl cfg node e = (Ok (), v)"
    unfolding bring_up_def by (auto simp: seq_Ok after_Ok return_run)
  have "prefix (trace w) (trace d)"
  proof -
    have "bring_up env cfg node = after (wrapped ''ensure: '' (Ensure ?sh (defaults env) cfg DefaultLayout node))
       (after (startKubelet ?sh) (after (waitReadyz env) (seq (EnsureAdminRBAC ?sh DefaultLayout) (\<lambda>cl.
          after (waitControlPlane env cl node) (after (MarkControlPlane ?sh cl cfg node) (return cl))))))"
      by (simp add: bring_up_def)
    have g: "only_calls (\<lambda>_. True) (wrapped ''ensure: '' (Ensure ?sh (defaults env) cfg DefaultLayout node))"
      "only_calls (\<lambda>_. True) (startKubelet ?sh)" "only_calls (\<lambda>_. True) (waitReadyz env)"
      "only_calls (\<lambda>_. True) (EnsureAdminRBAC ?sh DefaultLayout)"
      unfolding waitReadyz_def WaitForAPIServer_def startKubelet_def LoadAdmin_def EnsureAdminRBAC_def
      by (auto intro!: guar only_calls_Ensure calling.re_wait_rounds split: option.split)
    show ?thesis
      using calls_prefix [OF g(1) e] calls_prefix [OF g(2) k] calls_prefix [OF g(3) r] calls_prefix [OF g(4) b]
        prefix_order.trans by meson
  qed
  moreover from p obtain s t x y where "say s d = (Ok (), x)" "say t y = (Ok (), e)" and
    xy: "WaitForControlPlane ?sh (turns env) (with_timeout (ctx_plane env) controlPlaneTimeout) cl node x = (Ok (), y)"
    unfolding waitControlPlane_def after_Ok by blast
  then have x: "trace x = trace d" "trace e = trace y"
    by (simp_all add: say_def logf_run)
  moreover have "only_calls (\<lambda>_. True) (MarkControlPlane ?sh cl cfg node)"
    unfolding MarkControlPlane_def by (intro guar phase_guarantees(3)) simp
  from calls_prefix [OF this m] have "prefix (trace e) (trace v)" .
  moreover have "\<forall>q \<in> healthy_queries cl node. answered_ready ?sh (trace x) (trace y) q"
    by (rule plane_ready [OF xy])
  ultimately show ?thesis
    using x by (auto intro: answered_later)
qed

text \<open>The record that a boot writes, and what has been done by then.\<close>

lemma WriteLastBoot_cases:
  assumes "WriteLastBoot lb w = (r, v)" "wf_files (fs w)"
  shows "look v last_boot_file = Some (File (marshal_last_boot lb)) \<or>
    look v last_boot_file = look w last_boot_file \<and> r \<noteq> Ok ()"
proof -
  have n: "\<not> prefix ''.tmp-'' ''last-boot.json''"
    by simp
  from assms(1) [unfolded WriteLastBoot_def last_boot_split] assms(2) n show ?thesis
  proof (cases rule: write_atomic_cases)
    case kept
    then show ?thesis
      using target_not_in_zone [of "''last-boot.json''" state_dir "[]"] by (auto simp: last_boot_split same_outside_def)
  next
    case replaced
    then show ?thesis
      by (simp add: last_boot_split)
  qed
qed

lemma keeping_after_record:
  assumes "programs_contract sh"
  shows "guarantees (keeps_paths {last_boot_file})
    (after (ignore (WriteLastEvent s)) (after (notifyReady sh) (say t)))"
  by (intro guar keeping_event' keeping_steps assms quiet_record quiet_record(1) [unfolded quiet_paths_def, THEN conjunct1])

lemma record_boot_cases:
  assumes c: "programs_contract (programs env)" and wf: "wf_files (fs w)" "clean_backups (fs w)"
    and run: "record_boot env i self w = (r, v)"
  shows "look v last_boot_file = Some (File (marshal_last_boot (this_boot i self))) \<or>
    look v last_boot_file = look w last_boot_file \<and> r \<noteq> Ok () \<and> notify_call \<notin> set (drop (length (trace w)) (trace v))"
  using run [unfolded record_boot_def]
proof (cases rule: after_cases)
  case (stopped r')
  have "only_calls (\<lambda>c. c \<noteq> notify_call) (WriteLastBoot (this_boot i self))"
    by (rule guar)
  from relatesD [OF this stopped(1)] have "notify_call \<notin> set (drop (length (trace w)) (trace v))"
    by (auto simp: grows_def)
  with WriteLastBoot_cases [OF stopped(1) wf(1)] stopped(3) show ?thesis
    by auto
next
  case (through u)
  have "wf_files (fs u)"
    using guaranteesD [OF wf_write_atomic through(1) [unfolded WriteLastBoot_def]] wf(1) by (simp add: keeps_wf_def)
  moreover have "guarantees (keeps_paths {}) (WriteLastBoot (this_boot i self))"
  proof (rule outside_keeps)
    show "guarantees (same_outside (write_zone state_dir \<union> below last_boot_file)) (WriteLastBoot (this_boot i self))"
      unfolding WriteLastBoot_def last_boot_split by (rule outside_write_atomic) auto
    show "guarantees keeps_wf (WriteLastBoot (this_boot i self))"
      unfolding WriteLastBoot_def by (rule wf_write_atomic)
    show "(write_zone state_dir \<union> below last_boot_file) \<inter> odd_backups = {}"
      using state_zone_apart by (auto simp: odd_backups_def paths_defs prefix_def)
  qed simp
  from keeps_pathsD(2) [OF guaranteesD [OF this through(1)] wf] have "clean_backups (fs u)" .
  ultimately have "look v last_boot_file = look u last_boot_file"
    using keeps_pathsD(3) [OF guaranteesD [OF keeping_after_record [OF c] through(2)]] by simp
  with WriteLastBoot_cases [OF through(1) wf(1)] show ?thesis
    by auto
qed

text \<open>While a boot is not recorded: the record is the one of the file system \<open>f\<close> and systemd was not told
  since the history \<open>h\<close>; and that all objects were reported ready since then.\<close>

definition silent :: "call list \<Rightarrow> world \<Rightarrow> bool" where
  "silent h w \<longleftrightarrow> grows (\<lambda>c. c \<noteq> notify_call) h (trace w)"

abbreviation unrecorded :: "files \<Rightarrow> call list \<Rightarrow> world \<Rightarrow> bool" where
  "unrecorded f h w \<equiv> kept {last_boot_file} f w \<and> silent h w"

definition plane_answered :: "shell \<Rightarrow> call list \<Rightarrow> string \<Rightarrow> string \<Rightarrow> world \<Rightarrow> bool" where
  "plane_answered sh h node cl w \<longleftrightarrow> prefix h (trace w) \<and> (\<forall>q \<in> healthy_queries cl node. answered_ready sh h (trace w) q)"

lemma silent_refl: "silent (trace w) w"
  by (simp add: silent_def grows_def)

lemma silent_prefix: "silent h w \<Longrightarrow> prefix h (trace w)"
  unfolding silent_def by (rule grows_prefix)

lemma silent_after:
  "silent h w \<Longrightarrow> notify_call \<notin> set (drop (length (trace w)) (trace v)) \<Longrightarrow> prefix (trace w) (trace v) \<Longrightarrow> silent h v"
  by (auto simp: silent_def grows_def prefix_def)

lemma silent_not_told: "silent h w \<Longrightarrow> notify_call \<notin> set (drop (length h) (trace w))"
  by (auto simp: silent_def grows_def)

lemma silent_step: "only_calls (\<lambda>c. c \<noteq> notify_call) m \<Longrightarrow> triple (silent h) m (\<lambda>_. silent h) (silent h)"
  unfolding silent_def by (rule triple_keeps) (blast intro: calling.calls_trans dest: relatesD)

lemma unrecorded_step:
  assumes "guarantees (keeps_paths {last_boot_file}) m" "only_calls (\<lambda>c. c \<noteq> notify_call) m"
  shows "triple (unrecorded f h) m (\<lambda>_. unrecorded f h) (unrecorded f h)"
  by (rule triple_conj [OF kept_step [OF assms(1) subset_refl] silent_step [OF assms(2)]])

lemma plane_answered_step:
  assumes "only_calls (\<lambda>_. True) m"
  shows "triple (plane_answered sh h node cl) m (\<lambda>_. plane_answered sh h node cl) (plane_answered sh h node cl)"
proof (rule triple_keeps)
  fix w r v
  assume "plane_answered sh h node cl w" "m w = (r, v)"
  with calls_prefix [OF assms] show "plane_answered sh h node cl v"
    unfolding plane_answered_def by (blast intro: answered_later prefix_order.trans)
qed

lemma not_notify_plain: "plain_call c \<Longrightarrow> c \<noteq> notify_call"
  by (simp add: plain_call_def)

lemma bring_up_triple:
  assumes "programs_contract (programs env)"
  shows "triple (unrecorded f h) (on_err (bring_up env cfg node) (bootFailed u p self))
    (\<lambda>cl w. unrecorded f h w \<and> plane_answered (programs env) h node cl w) (unrecorded f h)"
proof (rule triple_value [OF unrecorded_step])
  note rec = quiet_record(1) [unfolded quiet_paths_def, THEN conjunct1]
  show "guarantees (keeps_paths {last_boot_file}) (on_err (bring_up env cfg node) (bootFailed u p self))"
    by (intro guar keeping_bring_up keeping_bootFailed assms rec quiet_record)
  show call: "only_calls (\<lambda>c. c \<noteq> notify_call) (on_err (bring_up env cfg node) (bootFailed u p self))"
    by (intro guar calls_plain not_notify_plain)
  fix w cl v
  assume w: "unrecorded f h w" and run: "on_err (bring_up env cfg node) (bootFailed u p self) w = (Ok cl, v)"
  then have "bring_up env cfg node w = (Ok cl, v)"
    by (auto simp: run_simps bootFailed_def)
  with bring_up_Ok grows_prefix [OF relatesD [OF call run]] w show "plane_answered (programs env) h node cl v"
    unfolding plane_answered_def by (blast intro: answered_later silent_prefix prefix_order.trans)
qed

lemma tidy_up_triple:
  assumes "programs_contract (programs env)"
  shows "triple (\<lambda>w. unrecorded f h w \<and> plane_answered (programs env) h node cl w) (tidy_up env cfg i cl)
    (\<lambda>_ w. unrecorded f h w \<and> plane_answered (programs env) h node cl w) (\<lambda>w. unrecorded f h w \<and> plane_answered (programs env) h node cl w)"
proof (rule triple_conj [OF unrecorded_step plane_answered_step])
  show "guarantees (keeps_paths {last_boot_file}) (tidy_up env cfg i cl)"
    by (rule keeping_tidy_up [OF assms quiet_record(1) [unfolded quiet_paths_def, THEN conjunct1] quiet_record(2)])
  show "only_calls (\<lambda>c. c \<noteq> notify_call) (tidy_up env cfg i cl)" "only_calls (\<lambda>_. True) (tidy_up env cfg i cl)"
    by (rule calls_tidy_up; simp add: not_notify_plain)+
qed

section \<open>Properties\<close>

text \<open>How a boot may end: unrecorded, or with its record written after the control plane was reported ready.\<close>

definition as_before :: "files \<Rightarrow> call list \<Rightarrow> world \<Rightarrow> bool" where
  "as_before f h w \<longleftrightarrow> look w last_boot_file = lookup f last_boot_file \<and> silent h w"

definition recorded :: "shell \<Rightarrow> string \<Rightarrow> string \<Rightarrow> call list \<Rightarrow> world \<Rightarrow> bool" where
  "recorded sh self node h w \<longleftrightarrow> (\<exists>d b cl. look w last_boot_file =
       Some (File (marshal_last_boot \<lparr>lb_version = self, deployment_id = d, boot_id = b\<rparr>)) \<and>
     (\<forall>q \<in> healthy_queries cl node. answered_ready sh h (trace w) q))"

lemma record_boot_triple:
  assumes "programs_contract (programs env)" "wf_files f" "clean_backups f"
  shows "triple (\<lambda>w. unrecorded f h w \<and> plane_answered (programs env) h node cl w) (record_boot env i self)
    (\<lambda>_. recorded (programs env) self node h) (\<lambda>w. as_before f h w \<or> recorded (programs env) self node h w)"
proof -
  have "only_calls (\<lambda>_. True) (record_boot env i self)"
    unfolding record_boot_def notifyReady_def by (auto intro!: guar split: option.split)
  note calls = calls_prefix [OF this] and plane = triple_either [OF plane_answered_step [OF this]]
  have "recorded (programs env) self node h v \<or> as_before f h v \<and> (\<forall>x. r \<noteq> Ok x)"
    if w: "unrecorded f h w \<and> plane_answered (programs env) h node cl w" and run: "record_boot env i self w = (r, v)" for w r v
  proof -
    have k: "kept {last_boot_file} f w"
      using w by simp
    from record_boot_cases [OF assms(1) keeps_pathsD(1,2) [OF k assms(2,3)] run] show ?thesis
    proof
      assume "look v last_boot_file = Some (File (marshal_last_boot (this_boot i self)))"
      with plane [OF _ run] w show ?thesis
        unfolding recorded_def plane_answered_def this_boot_def by blast
    next
      assume "look v last_boot_file = look w last_boot_file \<and> r \<noteq> Ok () \<and> notify_call \<notin> set (drop (length (trace w)) (trace v))"
      with calls [OF run] w kept_record [OF k assms(2,3)] show ?thesis
        unfolding as_before_def by (auto intro: silent_after)
    qed
  qed
  then show ?thesis
    by (intro tripleI) blast+
qed

lemma Boot_triple:
  assumes "programs_contract (programs env)" "wf_files (fs w)" "clean_backups (fs w)"
    "look w restore_marker = None" "record_ok (fs w)"
  shows "triple (\<lambda>x. x = w) (Boot env cfg node self) (\<lambda>_. recorded (programs env) self node (trace w))
    (\<lambda>v. as_before (fs w) (trace w) v \<or> recorded (programs env) self node (trace w) v)"
proof -
  let ?U = "unrecorded (fs w) (trace w)" and ?C = "\<lambda>v. as_before (fs w) (trace w) v \<or> recorded (programs env) self node (trace w) v"
  have C: "?U v \<Longrightarrow> ?C v" for v
    using kept_record [OF _ assms(2,3)] by (simp add: as_before_def)
  have "only_calls (\<lambda>c. c \<noteq> notify_call) (prepare_boot env self)"
    by (rule calls_prepare) (simp_all add: not_notify_plain)
  note call = triple_either [OF silent_step [OF this] silent_refl]
  have prepare: "triple (\<lambda>x. x = w) (prepare_boot env self) (\<lambda>_. ?U) ?C"
    by (rule tripleI) (use prepare_boot_keeps [OF assms] call C in blast)+
  show ?thesis
    unfolding Boot_def
    by (intro triple_seq [OF prepare] triple_seq [OF triple_weaken [OF bring_up_triple [OF assms(1)] _ _ C]]
        triple_after [OF triple_weaken [OF tidy_up_triple [OF assms(1)] _ _ C] record_boot_triple [OF assms(1-3)]]) auto
qed

lemma Boot_records:
  assumes "programs_contract (programs env)" and "wf_files (fs w)" and "clean_backups (fs w)"
    and "look w restore_marker = None" and "record_ok (fs w)" and "Boot env cfg node self w = (r, v)"
  shows "look v last_boot_file = look w last_boot_file \<and> r \<noteq> Ok () \<and>
      notify_call \<notin> set (drop (length (trace w)) (trace v))
    \<or> (\<exists>d b cl. look v last_boot_file =
          Some (File (marshal_last_boot \<lparr>lb_version = self, deployment_id = d, boot_id = b\<rparr>)) \<and>
        (\<forall>q \<in> healthy_queries cl node. answered_ready (programs env) (trace w) (trace v) q))"
proof -
  note t = Boot_triple [OF assms(1-5)]
  show ?thesis
  proof (cases "r = Ok ()")
    case True
    with triple_Ok [OF t refl] assms(6) show ?thesis
      unfolding recorded_def by blast
  next
    case False
    with triple_stopped [OF t refl assms(6)] show ?thesis
      unfolding recorded_def as_before_def by (auto dest: silent_not_told)
  qed
qed

text \<open>C1: a boot without a restore request that is cut short or fails, wherever that is, leaves the
  record of the last healthy boot as it was and does not tell systemd that it is ready; the record is
  replaced, by one with the running version, only after the node and the three static pods of the
  control plane were reported ready in this boot, and a boot that succeeds has replaced it.\<close>

theorem Boot_records_healthy:
  assumes "programs_contract (programs env)" and "wf_files (fs w)" and "clean_names (fs w)"
    and "look w restore_marker = None" and "record_ok (fs w)" and "Boot env cfg node self w = (r, v)"
  shows "look v last_boot_file = look w last_boot_file \<and> r \<noteq> Ok () \<and>
      notify_call \<notin> set (drop (length (trace w)) (trace v))
    \<or> (\<exists>d b cl. look v last_boot_file =
          Some (File (marshal_last_boot \<lparr>lb_version = self, deployment_id = d, boot_id = b\<rparr>)) \<and>
        (\<forall>q \<in> healthy_queries cl node. answered_ready (programs env) (trace w) (trace v) q))"
  using Boot_records [OF assms(1,2) clean_names_backups [OF assms(3)] assms(4-6)] .

definition sample_env :: env where
  "sample_env = \<lparr>programs = sample_shell ''c'', defaults = Inr plain_init, pacing = \<lparr>probe_time = (\<lambda>_. 100), tie = (\<lambda>_. False)\<rparr>,
     turns = sample_turns, ranging = [], ctx_readyz = \<lparr>left = None, cause = deadline_exceeded\<rparr>,
     ctx_plane = \<lparr>left = None, cause = deadline_exceeded\<rparr>\<rparr>"

lemma sample_contract: "programs_contract (sample_shell out)"
  unfolding programs_contract_def
  using confined_sample [of not_cp out] cp_contract_sample by (auto simp: confined_def sample_shell_def not_cp_def outside.rel_refl wfr.rel_refl)

text \<open>A boot that fails at once, for the kernel's boot id cannot be read.\<close>

lemma Boot_without_boot_id:
  assumes "look (quiet f) ostree_booted_marker = None" "look (quiet f) boot_id_file = None"
    and "\<not> file_above (fs (quiet f)) ostree_booted_marker" "\<not> file_above (fs (quiet f)) boot_id_file"
  shows "\<exists>e l. Boot sample_env cfg node self (quiet f) = (Err e, quiet f\<lparr>logs := l\<rparr>)"
proof -
  have "\<exists>e. prepare_boot sample_env self (quiet f) = (Err e, quiet f\<lparr>logs := [''[nanok8s] non-ostree system: backup/restore disabled'']\<rparr>)"
    using assms by (simp add: prepare_boot_def IsOSTree_def BootID_def seq_def after_def wrapped_def on_err_def attempt_def stat_def
        read_file_def syscall_def tick_def calm_def absent_errno_def quiet_def return_def raise_def say_def logf_def)
  then show ?thesis
    by (auto simp: Boot_def seq_def)
qed

lemma Boot_records_healthy_witness:
  "look (snd (Boot sample_env NewDefault ''node'' ''v1'' (quiet sample_files))) last_boot_file = look (quiet sample_files) last_boot_file"
proof -
  let ?w = "quiet sample_files"
  have "look ?w ostree_booted_marker = None" "look ?w boot_id_file = None" "\<not> file_above (fs ?w) ostree_booted_marker"
    "\<not> file_above (fs ?w) boot_id_file"
    by code_simp+
  from Boot_without_boot_id [OF this] obtain e l
    where run: "Boot sample_env NewDefault ''node'' ''v1'' ?w = (Err e, ?w\<lparr>logs := l\<rparr>)"
    by blast
  have h: "wf_files (fs ?w)" "clean_names (fs ?w)" "look ?w restore_marker = None" "record_ok (fs ?w)"
    by code_simp+
  have "node_query cl ''node'' \<in> healthy_queries cl ''node''" for cl
    by (simp add: healthy_queries_def)
  moreover have "\<not> answered_ready (programs sample_env) (trace ?w) (trace (snd (Boot sample_env NewDefault ''node'' ''v1'' ?w))) q" for q
    by (simp add: run answered_ready_def)
  moreover have "programs_contract (programs sample_env)"
    by (simp add: sample_env_def sample_contract)
  ultimately show ?thesis
    using Boot_records_healthy [OF _ h prod.collapse [symmetric], of sample_env NewDefault "''node''" "''v1''"] by blast
qed

end
