(* ===== verification/Boot_Restore.thy ===== *)
theory Boot_Restore
imports Boot_Safety
begin

text \<open>
  The ostree side of a boot: what a restore request does, when the marker is cleared, which snapshot is
  taken before kubeadm runs, and that a system without ostree has nothing of this.
\<close>

section \<open>Systems without ostree\<close>

lemma seq_step: "m w = (Ok x, u) \<Longrightarrow> seq m k w = k x u"
  by (simp add: seq_def)

lemma wrapped_step: "m w = (Ok x, u) \<Longrightarrow> wrapped s m w = (Ok x, u)"
  by (simp add: wrapped_def on_err_def)

text \<open>A boot once IsOSTree has answered no.\<close>

definition plain_boot :: "env \<Rightarrow> nanok8s_config \<Rightarrow> string \<Rightarrow> string \<Rightarrow> unit io" where
  "plain_boot env cfg node self =
     after (say ''non-ostree system: backup/restore disabled'')
    (seq BootID (\<lambda>boot. seq ReadLastBoot (\<lambda>(prev, had).
      let i = \<lparr>useBackups = False, currentDeployment = '''', currentBoot = boot, prevBoot = prev, hadPrev = had\<rparr>
      in after (announce had (upgrading i self) prev self)
        (seq (on_err (bring_up env cfg node) (bootFailed (upgrading i self) (lb_version prev) self)) (\<lambda>cl.
           after (tidy_up env cfg i cl) (record_boot env i self))))))"

lemma seq_assoc: "seq (seq m k) l = seq m (\<lambda>x. seq (k x) l)"
  by (rule ext) (simp add: seq_def split: prod.split res.split)

lemma seq_return: "seq (return x) k = k x"
  by (rule ext) (simp add: seq_def return_def)

lemma Boot_plain:
  assumes "IsOSTree w = (Ok False, u)"
  shows "Boot env cfg node self w = plain_boot env cfg node self u"
proof -
  have o: "wrapped ''detect ostree: '' IsOSTree w = (Ok False, u)"
    using assms by (rule wrapped_step)
  have e: "(\<lambda>x. seq (case x of (prev, had) \<Rightarrow> m prev had) k) = (\<lambda>(prev, had). seq (m prev had) k)"
    for m :: "last_boot \<Rightarrow> bool \<Rightarrow> boot_info io" and k :: "boot_info \<Rightarrow> unit io"
    by (auto simp: fun_eq_iff)
  show ?thesis
    unfolding Boot_def prepare_boot_def plain_boot_def after_def seq_assoc seq_step [where m = "wrapped ''detect ostree: '' IsOSTree", OF o]
    by (simp add: seq_assoc seq_return snapshot_previous_def Let_def e upgrading_def)
qed

lemma backups_quiet: "quiet_paths (below backups_dir)" "below backups_dir \<inter> (write_zone state_dir \<union> below last_boot_file) = {}"
  by (auto simp: quiet_paths_def write_zone_def temp_files_def paths_defs prefix_def)

lemma keeping_record_boot:
  assumes "programs_contract (programs env)" "quiet_paths X" "X \<inter> (write_zone state_dir \<union> below last_boot_file) = {}"
  shows "guarantees (keeps_paths X) (record_boot env i self)"
proof -
  have "guarantees (keeps_paths X) (WriteLastBoot lb)" for lb
  proof (rule outside_keeps)
    show "guarantees (same_outside (write_zone state_dir \<union> below last_boot_file)) (WriteLastBoot lb)"
      unfolding WriteLastBoot_def last_boot_split by (rule outside_write_atomic) auto
    show "guarantees keeps_wf (WriteLastBoot lb)"
      unfolding WriteLastBoot_def by (rule wf_write_atomic)
    show "(write_zone state_dir \<union> below last_boot_file) \<inter> odd_backups = {}"
      using state_zone_apart by (auto simp: odd_backups_def paths_defs prefix_def)
  qed (use assms(3) in auto)
  then show ?thesis
    unfolding record_boot_def
    using assms by (intro guar keeping_event' keeping_steps) (simp_all add: quiet_paths_def)
qed

lemma keeping_plain_boot:
  assumes "programs_contract (programs env)"
  shows "guarantees (keeps_paths (below backups_dir)) (plain_boot env cfg node self)"
  unfolding plain_boot_def Let_def
  using backups_quiet(1) [unfolded quiet_paths_def, THEN conjunct1]
  by (auto intro!: guar keeping_announce keeping_bring_up keeping_bootFailed keeping_tidy_up keeping_record_boot
      backups_quiet assms)

lemma calls_plain_boot: "only_calls (\<lambda>c. not_cp c \<and> c \<noteq> status_call) (plain_boot env cfg node self)"
proof -
  have p: "\<And>c. plain_call c \<Longrightarrow> not_cp c \<and> c \<noteq> status_call"
    by (simp add: plain_call_def)
  have "only_calls (\<lambda>c. not_cp c \<and> c \<noteq> status_call) (notifyReady sh)" for sh
    unfolding notifyReady_def by (auto intro!: guar split: option.split simp: notify_call_def status_call_def not_cp_def)
  then show ?thesis
    unfolding plain_boot_def record_boot_def Let_def
    by (auto intro!: guar calls_plain calls_tidy_up p)
qed

text \<open>C26: without ostree there is no backup and no restore: on a system without the ostree marker a boot,
  whatever its outcome, leaves everything under the backups directory as it is, the restore marker too,
  and runs neither cp nor rpm-ostree.\<close>

theorem Boot_without_ostree:
  assumes "programs_contract (programs env)" and "wf_files (fs w)" and "clean_names (fs w)"
    and "look w ostree_booted_marker = None" and "Boot env cfg node self w = (r, v)"
  shows "(\<forall>q \<in> below backups_dir. look v q = look w q) \<and>
    (\<forall>c \<in> set (drop (length (trace w)) (trace v)). not_cp c \<and> c \<noteq> status_call)"
proof (cases "\<exists>u. IsOSTree w = (Ok False, u)")
  case True
  then obtain u where u: "IsOSTree w = (Ok False, u)"
    by blast
  have fu: "fs u = fs w"
    using IsOSTree_Ok [OF u] by simp
  have tu: "prefix (trace w) (trace u)" "set (drop (length (trace w)) (trace u)) = {}"
    using relatesD [OF calls_state(7) u, of "\<lambda>_. False"] by (auto simp: grows_def)
  from assms(5) have run: "plain_boot env cfg node self u = (r, v)"
    by (simp add: Boot_plain [OF u])
  from keeps_pathsD(3) [OF guaranteesD [OF keeping_plain_boot [OF assms(1)] run], unfolded fu, OF assms(2) clean_names_backups [OF assms(3)]]
  have "\<forall>q \<in> below backups_dir. look v q = look w q"
    by blast
  moreover from relatesD [OF calls_plain_boot run] tu
  have "\<forall>c \<in> set (drop (length (trace w)) (trace v)). not_cp c \<and> c \<noteq> status_call"
    by (auto simp: grows_def prefix_def)
  ultimately show ?thesis
    by blast
next
  case False
  then have n: "IsOSTree w \<noteq> (Ok b, x)" for b x
    using IsOSTree_Ok [of w b x] assms(4) by (cases b) auto
  from assms(5) [unfolded Boot_def] show ?thesis
  proof (cases rule: seq_cases)
    case (through i u)
    then show ?thesis
      using n by (auto simp: prepare_boot_def seq_Ok wrapped_Ok)
  next
    case (stopped r')
    from stopped(1) [unfolded prepare_boot_def] obtain s where s: "wrapped ''detect ostree: '' IsOSTree w = (s, v)"
      using n by (auto elim!: seq_cases simp: wrapped_Ok)
    have g: "guarantees unchanged (wrapped ''detect ostree: '' IsOSTree)"
      by (intro guar)
    have c: "only_calls (\<lambda>_. False) (wrapped ''detect ostree: '' IsOSTree)"
      by (intro guar)
    from guaranteesD [OF g s] relatesD [OF c s] show ?thesis
      by (auto simp: unchanged_def grows_def)
  qed
qed

lemma Boot_without_ostree_witness:
  "look (snd (Boot sample_env NewDefault ''node'' ''v1'' (quiet sample_store))) (backup_path ''a_1'') = Some Dir"
proof -
  have h: "wf_files (fs (quiet sample_store))" "clean_names (fs (quiet sample_store))"
    "look (quiet sample_store) ostree_booted_marker = None"
    by code_simp+
  have "programs_contract (programs sample_env)"
    by (simp add: sample_env_def sample_contract)
  from Boot_without_ostree [OF this h prod.collapse [symmetric], of NewDefault "''node''" "''v1''"]
  have "look (snd (Boot sample_env NewDefault ''node'' ''v1'' (quiet sample_store))) (backup_path ''a_1'') =
      look (quiet sample_store) (backup_path ''a_1'')"
    by simp
  moreover have "look (quiet sample_store) (backup_path ''a_1'') = Some Dir"
    by code_simp
  ultimately show ?thesis
    by simp
qed

section \<open>The restore marker\<close>

lemma ClearRestoreMarker_Ok: "ClearRestoreMarker w = (Ok (), v) \<Longrightarrow> look v restore_marker = None"
  by (auto simp: ClearRestoreMarker_def run_simps split: if_splits dest!: remove_one_Ok remove_one_Err)

lemma clear_marker_cases:
  assumes "clear_marker w = (r, v)"
  shows "r = Crashed \<or> look v restore_marker = None \<or>
    (\<exists>e. logs v \<noteq> [] \<and> last (logs v) = ''[nanok8s] clear restore marker failed: '' @ err_text e)"
proof (cases "ClearRestoreMarker w")
  case (Pair s u)
  show ?thesis
  proof (cases s)
    case (Ok x)
    with Pair assms ClearRestoreMarker_Ok [of w u] show ?thesis
      by (simp add: clear_marker_def on_err_def)
  next
    case (Err e)
    with Pair assms show ?thesis
      by (auto simp: clear_marker_def on_err_def say_def logf_def)
  next
    case Panic
    with Pair show ?thesis
      by (auto simp: ClearRestoreMarker_def on_err_def remove_one_def return_def raise_def split: prod.splits res.splits if_splits)
  next
    case Crashed
    with Pair assms show ?thesis
      by (simp add: clear_marker_def on_err_def)
  qed
qed

lemma RestoreRequested_Ok:
  "RestoreRequested w = (Ok b, v) \<Longrightarrow> fs v = fs w \<and> (b \<longleftrightarrow> look w restore_marker \<noteq> None)"
  by (auto simp: RestoreRequested_def run_simps split: if_splits dest!: stat_Ok stat_Err)



section \<open>What a restore leaves\<close>

text \<open>What is written after the trees are back.\<close>

definition after_zone :: "path set" where
  "after_zone = write_zone state_dir \<union> below last_boot_file \<union> below last_event_file \<union> below restore_marker"

lemma after_zone_live: "after_zone \<inter> live_trees = {}"
  by (auto simp: after_zone_def live_trees_def write_zone_def temp_files_def paths_defs prefix_def Cons_eq_append_conv append_eq_Cons_conv)

lemma outside_record [guar]: "guarantees (same_outside after_zone) (WriteLastBoot lb)"
  "guarantees (same_outside after_zone) (WriteLastEvent s)" "guarantees (same_outside after_zone) clear_marker"
proof -
  show "guarantees (same_outside after_zone) (WriteLastBoot lb)" "guarantees (same_outside after_zone) (WriteLastEvent s)"
    unfolding WriteLastBoot_def WriteLastEvent_def last_boot_split last_event_split
    by (rule outside_write_atomic; auto simp: after_zone_def last_boot_split last_event_split)+
  have "below restore_marker \<subseteq> after_zone"
    by (auto simp: after_zone_def)
  then show "guarantees (same_outside after_zone) clear_marker"
    unfolding clear_marker_def ClearRestoreMarker_def say_def by (auto intro!: guar)
qed

lemma restored_later:
  assumes "restored f src g" "same_outside after_zone g h"
  shows "restored f src h"
proof -
  have "lookup h q = lookup g q" if "q \<in> live_trees" for q
    using assms(2) that after_zone_live by (auto simp: same_outside_def)
  then show ?thesis
    using assms(1) by (simp add: restored_def live_trees_def)
qed

lemma ReadMeta_Ok:
  assumes "ReadMeta n w = (Ok meta, v)" "simple_name n"
  shows "fs v = fs w \<and> (\<exists>c. look w (backup_path n @ [meta_file_name]) = Some (File c) \<and> unmarshal_last_boot c = Inr meta)"
proof -
  from assms obtain c u where "read_file (backup_path n @ [meta_file_name]) w = (Ok c, u)"
    "(case unmarshal_last_boot c of Inl e \<Rightarrow> raise (Wrap (''parse '' @ n @ '' meta: '') e []) | Inr meta \<Rightarrow> return meta) u = (Ok meta, v)"
    by (auto simp: ReadMeta_def seq_Ok wrapped_Ok)
  with read_file_Ok [of "backup_path n @ [meta_file_name]"] show ?thesis
    by (auto simp: run_simps split: sum.splits)
qed

lemma WriteLastBoot_Ok:
  "WriteLastBoot lb w = (Ok (), v) \<Longrightarrow> wf_files (fs w) \<Longrightarrow> look v last_boot_file = Some (File (marshal_last_boot lb))"
  using WriteLastBoot_cases by blast

text \<open>The end of a restore: the record of the restored boot and the event.\<close>

lemma restored_record:
  assumes l: "WriteLastBoot meta w = (Ok (), u)" and e: "ignore (WriteLastEvent s) u = (Ok (), v)" and wf: "wf_files (fs w)"
  shows "look v last_boot_file = Some (File (marshal_last_boot meta))" "same_outside after_zone (fs w) (fs v)"
proof -
  have "guarantees (same_outside (write_zone state_dir \<union> below last_event_file)) (ignore (WriteLastEvent s))"
    unfolding WriteLastEvent_def last_event_split by (intro guar) auto
  from same_outsideD [OF guaranteesD [OF this e], of last_boot_file] have "look v last_boot_file = look u last_boot_file"
    using quiet_record(1) by (simp add: quiet_paths_def)
  with WriteLastBoot_Ok [OF l wf] show "look v last_boot_file = Some (File (marshal_last_boot meta))"
    by simp
  show "same_outside after_zone (fs w) (fs v)"
    using guaranteesD [OF outside_record(1) l] guaranteesD [OF outside.gu_ignore [OF outside_record(2)] e]
    by (rule outside.rel_trans)
qed

lemma restore_named_Ok:
  assumes cp: "cp_contract sh" and name: "simple_name name" and wf: "wf_files (fs w)"
    and run: "after (backup_Restore sh name) (seq (ReadMeta name) (\<lambda>meta. after (WriteLastBoot meta)
        (ignore (WriteLastEvent s)))) w = (Ok (), v)"
  shows "restored (fs w) (backup_path name) (fs v) \<and>
    (\<exists>c meta. look w (backup_path name @ [meta_file_name]) = Some (File c) \<and> unmarshal_last_boot c = Inr meta \<and>
      look v last_boot_file = Some (File (marshal_last_boot meta)))"
proof -
  from run obtain b c d meta where r: "backup_Restore sh name w = (Ok (), b)" and m: "ReadMeta name b = (Ok meta, c)"
    and l: "WriteLastBoot meta c = (Ok (), d)" and e: "ignore (WriteLastEvent s) d = (Ok (), v)"
    by (auto simp: seq_Ok after_Ok)
  obtain t where t: "look b (backup_path name @ [meta_file_name]) = Some (File t)" "unmarshal_last_boot t = Inr meta" "fs c = fs b"
    using ReadMeta_Ok [OF m name] by blast
  have "look b (backup_path name @ [meta_file_name]) = look w (backup_path name @ [meta_file_name])"
    using same_outsideD [OF guaranteesD [OF outside_Restore [OF cp] r]] backups_not_in_zone by simp
  moreover have "wf_files (fs c)"
    using guaranteesD [OF wf_Restore [OF cp] r] wf t(3) by (simp add: keeps_wf_def)
  note rec = restored_record [OF l e this]
  moreover have "restored (fs w) (backup_path name) (fs v)"
    using restored_later [OF backup_Restore_Ok [OF cp name r wf]] rec(2) t(3) by simp
  ultimately show ?thesis
    using t by auto
qed

lemma restore_newest_Ok:
  assumes cp: "cp_contract sh" and wf: "wf_files (fs w)" "clean_backups (fs w)" and dep: "dep \<noteq> ''''"
    and run: "restore_newest sh dep w = (Ok (), v)"
  shows "(\<forall>m. is_backup (fs w) m \<longrightarrow> \<not> prefix (dep @ ''_'') m) \<and> same_outside after_zone (fs w) (fs v) \<or>
    (\<exists>n c meta. newest_backup (fs w) (prefix (dep @ ''_'')) n \<and> restored (fs w) (backup_path n) (fs v) \<and>
      look w (backup_path n @ [meta_file_name]) = Some (File c) \<and> unmarshal_last_boot c = Inr meta \<and>
      look v last_boot_file = Some (File (marshal_last_boot meta)))"
proof -
  from run dep obtain name u where l: "LatestForDeployment dep w = (Ok name, u)"
    and rest: "(if name = ''''
        then after (say (''restore marker present but no backup for deployment '' @ shortID dep))
               (ignore (WriteLastEvent ''restore requested but no backup for current deployment''))
        else after (say (''restoring backup '' @ name)) (after (backup_Restore sh name)
            (seq (ReadMeta name) (\<lambda>meta. after (WriteLastBoot meta)
                    (ignore (WriteLastEvent (''restored backup '' @ name))))))) u = (Ok (), v)"
    unfolding restore_newest_def by (auto simp: seq_Ok)
  have u: "fs u = fs w"
    using guaranteesD [OF Latest_unchanged l] by (simp add: unchanged_def)
  note newest = LatestForDeployment_Ok [OF l wf]
  show ?thesis
  proof (cases "name = ''''")
    case True
    then have "\<forall>m. is_backup (fs w) m \<longrightarrow> \<not> prefix (dep @ ''_'') m"
      using newest by (auto simp: newest_backup_def)
    moreover have g: "guarantees (same_outside after_zone)
        (after (say (''restore marker present but no backup for deployment '' @ shortID dep))
               (ignore (WriteLastEvent ''restore requested but no backup for current deployment'')))"
      unfolding say_def by (intro guar)
    ultimately show ?thesis
      using guaranteesD [OF g rest [unfolded if_P [OF True]]] u by simp
  next
    case False
    then have new: "newest_backup (fs w) (prefix (dep @ ''_'')) name"
      using newest by blast
    then have name: "simple_name name"
      using wf(2) by (auto simp: newest_backup_def clean_backups_def is_backup_def is_dir_def)
    from rest False obtain a where a: "say (''restoring backup '' @ name) u = (Ok (), a)"
      and run: "after (backup_Restore sh name) (seq (ReadMeta name) (\<lambda>meta. after (WriteLastBoot meta)
        (ignore (WriteLastEvent (''restored backup '' @ name))))) a = (Ok (), v)"
      by (auto simp: after_Ok)
    have "fs a = fs w"
      using a u by (simp add: say_def logf_run)
    with restore_named_Ok [OF cp name _ run] wf(1) new show ?thesis
      by auto
  qed
qed

lemma maybeRestore_Ok:
  assumes "cp_contract sh" and "wf_files (fs w)" and "clean_names (fs w)" and "dep \<noteq> ''''"
    and "look w restore_marker \<noteq> None" and "maybeRestore sh dep w = (Ok (), v)"
  shows "(\<forall>m. is_backup (fs w) m \<longrightarrow> \<not> prefix (dep @ ''_'') m) \<and> (\<forall>q \<in> live_trees. look v q = look w q) \<or>
    (\<exists>n c meta. newest_backup (fs w) (prefix (dep @ ''_'')) n \<and> restored (fs w) (backup_path n) (fs v) \<and>
      look w (backup_path n @ [meta_file_name]) = Some (File c) \<and> unmarshal_last_boot c = Inr meta \<and>
      look v last_boot_file = Some (File (marshal_last_boot meta)))"
proof -
  from assms(6) obtain b u where q: "RestoreRequested w = (Ok b, u)"
    and d: "(if \<not> b then return () else deferred (restore_newest sh dep) clear_marker) u = (Ok (), v)"
    unfolding maybeRestore_def by (auto simp: seq_Ok)
  note b = RestoreRequested_Ok [OF q]
  with d assms(5) have "deferred (restore_newest sh dep) clear_marker u = (Ok (), v)"
    by simp
  from deferred_Ok [OF this] obtain x r where x: "restore_newest sh dep u = (Ok (), x)" and c: "clear_marker x = (r, v)"
    by blast
  have "guarantees (same_outside (below restore_marker)) clear_marker"
    unfolding clear_marker_def ClearRestoreMarker_def say_def by (auto intro!: guar)
  from same_outsideD [OF guaranteesD [OF this c], of last_boot_file]
  have l: "look v last_boot_file = look x last_boot_file"
    by (simp add: paths_defs)
  note z = guaranteesD [OF outside_record(3) c]
  have live: "look v p = look x p" if "p \<in> live_trees" for p
    using same_outsideD [OF z] that after_zone_live by blast
  have u: "fs u = fs w" "wf_files (fs u)" "clean_backups (fs u)"
    using b assms(2) clean_names_backups [OF assms(3)] by simp_all
  from restore_newest_Ok [OF assms(1) u(2,3) assms(4) x, unfolded u(1)] show ?thesis
  proof
    assume a: "(\<forall>m. is_backup (fs w) m \<longrightarrow> \<not> prefix (dep @ ''_'') m) \<and> same_outside after_zone (fs w) (fs x)"
    then have "look v p = look w p" if "p \<in> live_trees" for p
      using live [OF that] same_outsideD [of after_zone "fs w" "fs x" p] that after_zone_live by auto
    with a show ?thesis
      by blast
  next
    assume "\<exists>n c meta. newest_backup (fs w) (prefix (dep @ ''_'')) n \<and> restored (fs w) (backup_path n) (fs x) \<and>
      look w (backup_path n @ [meta_file_name]) = Some (File c) \<and> unmarshal_last_boot c = Inr meta \<and>
      look x last_boot_file = Some (File (marshal_last_boot meta))"
    then show ?thesis
      using l restored_later [OF _ z] by metis
  qed
qed

text \<open>C6: a successful restore on request: if the deployment has no backup the live trees stay as they are;
  otherwise they are those of a newest backup of it, and the record of the last boot is the one that was
  saved with the backup, so the rest of the boot takes the restored state for the previous boot's.\<close>

theorem maybeRestore_restores:
  assumes "cp_contract sh" and "wf_files (fs w)" and "clean_names (fs w)" and "dep \<noteq> ''''"
    and "look w restore_marker \<noteq> None" and "maybeRestore sh dep w = (Ok (), v)"
  shows "(\<forall>m. is_backup (fs w) m \<longrightarrow> \<not> prefix (dep @ ''_'') m) \<and> (\<forall>q \<in> live_trees. look v q = look w q) \<or>
    (\<exists>n c meta. newest_backup (fs w) (prefix (dep @ ''_'')) n \<and> restored (fs w) (backup_path n) (fs v) \<and>
      look w (backup_path n @ [meta_file_name]) = Some (File c) \<and> unmarshal_last_boot c = Inr meta \<and>
      look v last_boot_file = Some (File (marshal_last_boot meta)))"
  using maybeRestore_Ok [OF assms] .

definition marked_files :: files where
  "marked_files = set_node restore_marker (File '''') 5 (set_node (etcd_data_dir @ [''db'']) (File ''new'') 6
     (fs (snd (backup_Create (sample_shell '''') live_boot (quiet live_files)))))"

lemma maybeRestore_restores_witness:
  "look (snd (maybeRestore (sample_shell '''') ''d'' (quiet marked_files))) (etcd_data_dir @ [''db'']) = Some (File ''e'')"
proof -
  let ?w = "quiet marked_files" and ?m = "maybeRestore (sample_shell '''') ''d'' (quiet marked_files)"
  have ok: "fst ?m = Ok ()"
    by code_simp
  have w: "wf_files (fs ?w)" "clean_names (fs ?w)" "look ?w restore_marker \<noteq> None"
    by code_simp+
  have "fst (backup_List ?w) = Ok [''d_b'']"
    by code_simp
  then have "backup_List ?w = (Ok [''d_b''], snd (backup_List ?w))"
    by (cases "backup_List ?w") simp
  from backup_List_Ok(2) [OF this w(1)] have one: "is_backup (fs ?w) n \<longleftrightarrow> n = ''d_b''" for n
    by auto
  have "prefix (''d'' @ ''_'') ''d_b''"
    by simp
  with maybeRestore_restores [OF cp_contract_sample w(1,2) _ w(3), of "''d''" "''''" "snd ?m"] ok one
  obtain n where "newest_backup (fs ?w) (prefix (''d'' @ ''_'')) n" "restored (fs ?w) (backup_path n) (fs (snd ?m))"
    by (cases ?m) auto
  then have "restored (fs ?w) (backup_path ''d_b'') (fs (snd ?m))"
    using one by (simp add: newest_backup_def)
  then have "look (snd ?m) (etcd_data_dir @ [''db'']) = look ?w (backups_dir @ [''d_b'', ''etcd'', ''db''])"
    by (simp add: restored_def)
  also have "\<dots> = Some (File ''e'')"
    by code_simp
  finally show ?thesis .
qed

section \<open>The snapshot of the previous boot\<close>

text \<open>rpm-ostree status reports, and changes no file.\<close>

definition status_reads_only :: "shell \<Rightarrow> bool" where
  "status_reads_only sh \<longleftrightarrow> (\<forall>h f. snd (sh h status_call f) = f)"

lemma status_unchanged:
  assumes "status_reads_only sh"
  shows "guarantees unchanged (BootedDeploymentID sh)"
proof -
  have "guarantees unchanged (extern sh status_call)"
    by (rule same.gu_extern) (use assms in \<open>simp add: unchanged_def status_reads_only_def\<close>)
  then show ?thesis
    unfolding BootedDeploymentID_def allDeployments_def
    by (auto intro!: guar split: option.split sum.split)
qed

text \<open>The part of the boot before kubeadm, step by step: up to the restore it changes nothing.\<close>

lemma prepare_boot_steps:
  assumes ro: "status_reads_only (programs env)" and run: "prepare_boot env self w = (Ok i, v)"
  obtains c d e f where "fs c = fs w"
    "(if useBackups i then wrapped ''restore: '' (maybeRestore (programs env) (currentDeployment i)) else return ()) c = (Ok (), d)"
    "ReadLastBoot d = (Ok (prevBoot i, hadPrev i), e)"
    "snapshot_previous (programs env) (useBackups i) (hadPrev i) (prevBoot i) (currentBoot i) e = (Ok (), f)"
    "announce (hadPrev i) (upgrading i self) (prevBoot i) self f = (Ok (), v)"
proof -
  from run obtain "use" dep boot prev had a b c d e f where
    a: "IsOSTree w = (Ok use, a)" and
    b: "(if use then wrapped ''booted deployment id: '' (BootedDeploymentID (programs env))
          else after (say ''non-ostree system: backup/restore disabled'') (return '''')) a = (Ok dep, b)" and
    c: "BootID b = (Ok boot, c)" and
    d: "(if use then wrapped ''restore: '' (maybeRestore (programs env) dep) else return ()) c = (Ok (), d)" and
    e: "ReadLastBoot d = (Ok (prev, had), e)" and
    f: "snapshot_previous (programs env) use had prev boot e = (Ok (), f)" and
    g: "announce had (upgrading i self) prev self f = (Ok (), v)" and
    i: "i = \<lparr>useBackups = use, currentDeployment = dep, currentBoot = boot, prevBoot = prev, hadPrev = had\<rparr>"
    unfolding prepare_boot_def Let_def by (auto simp: seq_Ok after_Ok wrapped_Ok return_run split: prod.splits)
  have "fs a = fs w"
    using IsOSTree_Ok [OF a] by simp
  moreover have "fs b = fs a"
    using b guaranteesD [OF status_unchanged [OF ro], of a] by (auto simp: run_simps say_def unchanged_def split: if_splits)
  moreover have "guarantees unchanged BootID"
    unfolding BootID_def by (intro guar)
  from guaranteesD [OF this c] have "fs c = fs b"
    by (simp add: unchanged_def)
  ultimately have "fs c = fs w"
    by simp
  with d e f g show thesis
    by (intro that [of c d e f]) (simp_all only: i boot_info.select_convs)
qed

lemma prepare_boot_Ok:
  assumes ro: "status_reads_only (programs env)" and m: "look w restore_marker = None"
    and run: "prepare_boot env self w = (Ok i, v)"
  obtains x y z where "fs x = fs w" "ReadLastBoot x = (Ok (prevBoot i, hadPrev i), y)"
    "snapshot_previous (programs env) (useBackups i) (hadPrev i) (prevBoot i) (currentBoot i) y = (Ok (), z)"
    "announce (hadPrev i) (upgrading i self) (prevBoot i) self z = (Ok (), v)"
proof (rule prepare_boot_steps [OF ro run])
  fix c d e f
  assume c: "fs c = fs w" and
    d: "(if useBackups i then wrapped ''restore: '' (maybeRestore (programs env) (currentDeployment i)) else return ()) c = (Ok (), d)" and
    rest: "ReadLastBoot d = (Ok (prevBoot i, hadPrev i), e)"
    "snapshot_previous (programs env) (useBackups i) (hadPrev i) (prevBoot i) (currentBoot i) e = (Ok (), f)"
    "announce (hadPrev i) (upgrading i self) (prevBoot i) self f = (Ok (), v)"
  have "fs d = fs c"
    using d m c no_restore [of "programs env" _ c _ d] by (auto simp: run_simps split: if_splits)
  with c rest show thesis
    by (intro that [of d e f]) (simp_all only:)
qed

lemma prepare_boot_saves:
  assumes "cp_contract (programs env)" and "status_reads_only (programs env)"
    and "wf_files (fs w)" and "record_ok (fs w)" and "look w restore_marker = None"
    and "prepare_boot env self w = (Ok i, v)"
    and "useBackups i" and "hadPrev i" and "deployment_id (prevBoot i) \<noteq> ''''" and "boot_id (prevBoot i) \<noteq> ''''"
    and "boot_id (prevBoot i) \<noteq> currentBoot i"
  shows "look v (backup_path (backup_Name (prevBoot i))) \<noteq> None \<and>
    (look w (backup_path (backup_Name (prevBoot i))) = None \<longrightarrow>
      holds_snapshot (fs w) (prevBoot i) (fs v) (backup_path (backup_Name (prevBoot i))))"
proof -
  let ?p = "prevBoot i"
  let ?f = "backup_path (backup_Name ?p)" and ?t = "backups_dir @ [backup_Name ?p @ ''.tmp'']"
  from assms(2,5,6) obtain x y z where x: "fs x = fs w" "ReadLastBoot x = (Ok (?p, hadPrev i), y)"
    and s: "snapshot_previous (programs env) (useBackups i) (hadPrev i) ?p (currentBoot i) y = (Ok (), z)"
    and a: "announce (hadPrev i) (upgrading i self) ?p self z = (Ok (), v)"
    by (rule prepare_boot_Ok)
  from ReadLastBoot_Ok [OF x(2)] x(1) assms(4,8) have y: "fs y = fs w" and n: "simple_name (backup_Name ?p)"
    by (auto simp: record_ok_def)
  from s assms(7-11) obtain u where c: "backup_Create (programs env) ?p y = (Ok (), u)" and u: "fs z = fs u"
    by (auto simp: snapshot_previous_def run_simps say_def)
  have "guarantees (same_outside (write_zone state_dir \<union> below last_event_file)) (announce (hadPrev i) (upgrading i self) ?p self)"
    unfolding announce_def say_def WriteLastEvent_def last_event_split by (auto intro!: guar)
  note av = guaranteesD [OF this a]
  have same: "look v (?f @ q) = look u (?f @ q)" for q
    using same_outsideD [OF av, of "?f @ q"] u by (auto simp: write_zone_def temp_files_def paths_defs prefix_def)
  have wfy: "wf_files (fs y)"
    using y assms(3) by simp
  from assms(1) n c wfy refl refl show ?thesis
  proof (cases rule: backup_Create_cases)
    case kept
    then have "look w ?f \<noteq> None"
      using y by simp
    moreover have "?f \<notin> create_zone ?t"
      by (auto simp: create_zone_def prefix_def)
    then have "look u ?f = look y ?f"
      by (rule same_outsideD [OF kept(1)])
    ultimately show ?thesis
      using same [of "[]"] y by auto
  next
    case taken
    then have "holds_snapshot (fs w) ?p (fs v) ?f"
      using same [of "[]"] same [of "_ # _"] y unfolding holds_snapshot_def by simp
    then show ?thesis
      by (simp add: holds_snapshot_def)
  qed
qed

text \<open>C5: before kubeadm touches anything, the state the previous boot left is safe: when the part of the
  boot before kubeadm succeeds on an ostree system, without a restore and with the record of an earlier
  boot, there is a backup by the name of that boot, and unless it was there already it is a snapshot of
  the live trees as this boot found them.\<close>

theorem prepare_boot_snapshot:
  assumes "cp_contract (programs env)" and "status_reads_only (programs env)"
    and "wf_files (fs w)" and "record_ok (fs w)" and "look w restore_marker = None"
    and "prepare_boot env self w = (Ok i, v)"
    and "useBackups i" and "hadPrev i" and "deployment_id (prevBoot i) \<noteq> ''''" and "boot_id (prevBoot i) \<noteq> ''''"
    and "boot_id (prevBoot i) \<noteq> currentBoot i"
  shows "look v (backup_path (backup_Name (prevBoot i))) \<noteq> None \<and>
    (look w (backup_path (backup_Name (prevBoot i))) = None \<longrightarrow>
      holds_snapshot (fs w) (prevBoot i) (fs v) (backup_path (backup_Name (prevBoot i))))"
  using prepare_boot_saves [OF assms] .

definition second_boot :: files where
  "second_boot = live_files\<lparr>ents := ents live_files @
     [([''run''], Dir), (ostree_booted_marker, File ''''), ([''proc''], Dir), ([''proc'', ''sys''], Dir),
      ([''proc'', ''sys'', ''kernel''], Dir), ([''proc'', ''sys'', ''kernel'', ''random''], Dir), (boot_id_file, File ''c''),
      (nanok8s_var_dir, Dir), (state_dir, Dir), (last_boot_file, File (marshal_last_boot live_boot))]\<rparr>"

definition ostree_env :: env where
  "ostree_env = sample_env\<lparr>programs := sample_shell sample_status\<rparr>"

text \<open>What its first boot leaves before kubeadm runs.\<close>

definition upgraded_files :: files where
  "upgraded_files = \<lparr>ents = ents second_boot @
     [(backups_dir, Dir), (backup_path ''d_b'', Dir), (backup_path ''d_b'' @ [''etcd''], Dir),
      (backup_path ''d_b'' @ [''etcd'', ''db''], File ''e''), (backup_path ''d_b'' @ [''kubelet''], Dir),
      (backup_path ''d_b'' @ [meta_file_name], File (marshal_last_boot live_boot)),
      (last_event_file, File (''upgrading 1 -> 2'' @ [CHR 0x0A]))],
     stamps = [(nanok8s_var_dir, 0), (backups_dir, 0), (backup_path ''d_b'', 0), (backup_path ''d_b'' @ [''kubelet''], 0),
      (backup_path ''d_b'' @ [meta_file_name], 0), (state_dir, 0), (last_event_file, 0)]\<rparr>"

definition second_info :: boot_info where
  "second_info = \<lparr>useBackups = True, currentDeployment = ''old'', currentBoot = ''c'', prevBoot = live_boot, hadPrev = True\<rparr>"

lemma second_boot_run:
  "fst (prepare_boot ostree_env ''2'' (quiet second_boot)) = Ok second_info"
  "fs (snd (prepare_boot ostree_env ''2'' (quiet second_boot))) = upgraded_files"
proof -
  have "(case prepare_boot ostree_env ''2'' (quiet second_boot) of (r, v) \<Rightarrow> (r, fs v)) = (Ok second_info, upgraded_files)"
    by code_simp
  then show "fst (prepare_boot ostree_env ''2'' (quiet second_boot)) = Ok second_info"
    "fs (snd (prepare_boot ostree_env ''2'' (quiet second_boot))) = upgraded_files"
    by (simp_all split: prod.splits)
qed

lemma prepare_boot_snapshot_witness:
  "look (snd (prepare_boot ostree_env ''2'' (quiet second_boot))) (backups_dir @ [''d_b'', ''etcd'', ''db'']) = Some (File ''e'')"
proof -
  let ?m = "prepare_boot ostree_env ''2'' (quiet second_boot)"
  have m: "?m = (Ok second_info, snd ?m)"
    using second_boot_run(1) by (simp add: prod_eq_iff)
  have w: "wf_files (fs (quiet second_boot))" "record_ok (fs (quiet second_boot))" "look (quiet second_boot) restore_marker = None"
    by code_simp+
  have c: "cp_contract (programs ostree_env)" "status_reads_only (programs ostree_env)"
    by (simp_all add: ostree_env_def cp_contract_sample status_reads_only_def sample_shell_def status_call_def)
  have n: "backup_Name live_boot = ''d_b''" "look (quiet second_boot) (backup_path ''d_b'') = None"
    by code_simp+
  from prepare_boot_snapshot [OF c w m] n
  have "holds_snapshot second_boot live_boot (fs (snd ?m)) (backup_path ''d_b'')"
    by (simp add: second_info_def live_boot_def)
  then have "look (snd ?m) (backups_dir @ [''d_b'', ''etcd'', ''db'']) = lookup second_boot (etcd_data_dir @ [''db''])"
    by (simp add: holds_snapshot_def)
  also have "\<dots> = Some (File ''e'')"
    by code_simp
  finally show ?thesis .
qed

end
