(* ===== verification/Rollback.thy ===== *)
theory Rollback
imports Boot_Restore
begin

text \<open>
  Across two boots: what the first boot of a new deployment saved is what a boot of the old deployment,
  after the rollback of the host, starts from.
\<close>

section \<open>Facts\<close>

lemma wf_maybeRestore:
  assumes "cp_contract sh"
  shows "guarantees keeps_wf (maybeRestore sh dep)"
proof -
  have "guarantees keeps_wf (LatestForDeployment dep)"
    using Latest_unchanged by (auto simp: guarantees_def unchanged_def keeps_wf_def)
  moreover have "guarantees keeps_wf RestoreRequested"
    unfolding RestoreRequested_def by (auto intro!: guar split: sum.split)
  moreover have "guarantees keeps_wf clear_marker"
    unfolding clear_marker_def ClearRestoreMarker_def say_def by (auto intro!: guar simp: paths_defs)
  moreover have "guarantees keeps_wf (ReadMeta n)" for n
    unfolding ReadMeta_def by (auto intro!: guar split: sum.split)
  moreover have "guarantees keeps_wf (WriteLastBoot lb)" "guarantees keeps_wf (WriteLastEvent s)" for lb s
    unfolding WriteLastBoot_def WriteLastEvent_def by (rule wf_write_atomic)+
  ultimately show ?thesis
    unfolding maybeRestore_def restore_newest_def say_def by (auto intro!: guar wf_Restore [OF assms])
qed

lemma Create_live:
  assumes "cp_contract sh" "simple_name (backup_Name meta)" "wf_files (fs w)" "backup_Create sh meta w = (r, v)" "q \<in> live_trees"
  shows "look v q = look w q"
proof -
  have z: "create_zone (backups_dir @ [backup_Name meta @ ''.tmp'']) \<inter> live_trees = {}"
    by (rule zone_live) (rule refl)
  have "below (backups_dir @ [backup_Name meta]) \<inter> live_trees = {}"
    by (auto simp: live_trees_def paths_defs prefix_def)
  with z assms(5) have "q \<notin> create_zone (backups_dir @ [backup_Name meta @ ''.tmp''])" "q \<notin> below (backups_dir @ [backup_Name meta])"
    by blast+
  then show ?thesis
    by (cases rule: backup_Create_cases [OF assms(1,2,4,3) refl refl]) (simp_all add: same_outside_def)
qed

text \<open>What comes after the record of the previous boot was read leaves the live trees alone.\<close>

lemma after_record_live:
  assumes cp: "cp_contract sh" and n: "simple_name (backup_Name prev)" and wf: "wf_files (fs e)"
    and s: "snapshot_previous sh b had prev boot e = (Ok (), f)" and a: "announce had up prev self f = (Ok (), v)"
    and q: "q \<in> live_trees"
  shows "look v q = look e q"
proof -
  have "look f q = look e q"
    using s Create_live [OF cp n wf _ q] by (auto simp: snapshot_previous_def run_simps say_def split: if_splits)
  moreover have "guarantees (same_outside after_zone) (announce had up prev self)"
    unfolding announce_def say_def by (auto intro!: guar)
  from same_outsideD [OF guaranteesD [OF this a]] have "look v q = look f q"
    using q after_zone_live by blast
  ultimately show ?thesis
    by simp
qed

lemma prepare_boot_restored:
  assumes cp: "cp_contract (programs env)" and ro: "status_reads_only (programs env)"
    and wf: "wf_files (fs u)" "clean_names (fs u)" "look u restore_marker \<noteq> None"
    and run: "prepare_boot env self u = (Ok j, x)" and j: "useBackups j" "currentDeployment j \<noteq> ''''"
    and n: "simple_name (backup_Name meta)" "valid_boot meta"
    and newest: "\<And>m. newest_backup (fs u) (prefix (currentDeployment j @ ''_'')) m \<longleftrightarrow> m = backup_Name meta"
    and saved: "holds_snapshot f meta (fs u) (backup_path (backup_Name meta))"
  shows "hadPrev j \<and> prevBoot j = meta \<and> restored (fs u) (backup_path (backup_Name meta)) (fs x)"
proof -
  let ?n = "backup_Name meta"
  obtain c d e g where c: "fs c = fs u"
    and d: "(if useBackups j then wrapped ''restore: '' (maybeRestore (programs env) (currentDeployment j)) else return ()) c = (Ok (), d)"
    and e: "ReadLastBoot d = (Ok (prevBoot j, hadPrev j), e)"
    and s: "snapshot_previous (programs env) (useBackups j) (hadPrev j) (prevBoot j) (currentBoot j) e = (Ok (), g)"
    and a: "announce (hadPrev j) (upgrading j self) (prevBoot j) self g = (Ok (), x)"
    by (rule prepare_boot_steps [OF ro run])
  from d j(1) have m: "maybeRestore (programs env) (currentDeployment j) c = (Ok (), d)"
    by (simp add: wrapped_Ok)
  have "is_backup (fs u) ?n" "prefix (currentDeployment j @ ''_'') ?n"
    using newest [of ?n] by (simp_all add: newest_backup_def)
  with maybeRestore_Ok [OF cp _ _ j(2) _ m] wf newest obtain t k where
    r: "restored (fs u) (backup_path ?n) (fs d)" and t: "look u (backup_path ?n @ [meta_file_name]) = Some (File t)"
    "unmarshal_last_boot t = Inr k" "look d last_boot_file = Some (File (marshal_last_boot k))"
    unfolding c by metis
  have "k = meta"
    using t(1,2) saved n(2) by (simp add: holds_snapshot_def unmarshal_marshal)
  with ReadLastBoot_Ok [OF e] t(3) have prev: "hadPrev j" "prevBoot j = meta" "fs e = fs d"
    using n(2) by (auto simp: unmarshal_marshal split: if_splits)
  have "wf_files (fs e)"
    using guaranteesD [OF wf_maybeRestore [OF cp] m] wf(1) c prev(3) by (simp add: keeps_wf_def)
  then have "look x q = look d q" if "q \<in> live_trees" for q
    using after_record_live [OF cp _ _ s a that] prev n by simp
  with r have "restored (fs u) (backup_path ?n) (fs x)"
    by (simp add: restored_def live_trees_def)
  with prev show ?thesis
    by simp
qed

section \<open>Properties\<close>

text \<open>C7: a rollback brings back the state: let the first boot of a new deployment, after it found the record
  of a boot of the old one, get as far as kubeadm; whatever happens then, if the snapshot it made is kept
  and is the newest of the old deployment when the host boots the old one again with a restore request,
  then that boot gets to kubeadm with the etcd and kubernetes trees and the kubelet files as the new
  deployment found them, and takes the boot that left them for the previous one.\<close>

theorem rollback_recovers:
  assumes "cp_contract (programs env)" and "status_reads_only (programs env)"
    and "cp_contract (programs env')" and "status_reads_only (programs env')"
    and "wf_files (fs w)" and "record_ok (fs w)" and "look w restore_marker = None"
    and "prepare_boot env new w = (Ok i, v)"
    and "useBackups i" and "hadPrev i" and "deployment_id (prevBoot i) \<noteq> ''''" and "boot_id (prevBoot i) \<noteq> ''''"
    and "boot_id (prevBoot i) \<noteq> currentBoot i" and "look w (backup_path (backup_Name (prevBoot i))) = None"
    and "\<forall>q \<in> below (backup_path (backup_Name (prevBoot i))). look u q = look v q"
    and "\<forall>m. newest_backup (fs u) (prefix (deployment_id (prevBoot i) @ ''_'')) m \<longleftrightarrow> m = backup_Name (prevBoot i)"
    and "wf_files (fs u)" and "clean_names (fs u)" and "look u restore_marker \<noteq> None"
    and "prepare_boot env' old u = (Ok j, x)" and "useBackups j" and "currentDeployment j = deployment_id (prevBoot i)"
  shows "(\<forall>q \<in> below etcd_data_dir \<union> below kubernetes_dir. look x q = look w q) \<and>
    (\<forall>k \<in> set kubelet_state_files. look x (kubelet_dir @ [k]) = look w (kubelet_dir @ [k])) \<and>
    hadPrev j \<and> prevBoot j = prevBoot i"
proof -
  let ?p = "prevBoot i"
  have s: "holds_snapshot (fs w) ?p (fs v) (backup_path (backup_Name ?p))"
    using prepare_boot_saves [OF assms(1,2,5-13)] assms(14) by blast
  have keep: "look u (backup_path (backup_Name ?p) @ q) = look v (backup_path (backup_Name ?p) @ q)" for q
    using assms(15) by simp
  have su: "holds_snapshot (fs w) ?p (fs u) (backup_path (backup_Name ?p))"
    using s keep [of "[]"] keep [of "_ # _"] unfolding holds_snapshot_def by simp
  have "simple_name (backup_Name ?p) \<and> valid_boot ?p"
  proof (rule prepare_boot_Ok [OF assms(2,7,8)])
    fix a b assume "fs a = fs w" "ReadLastBoot a = (Ok (?p, hadPrev i), b)"
    from ReadLastBoot_Ok [OF this(2)] this(1) assms(10)
    obtain c where "look w last_boot_file = Some (File c)" "unmarshal_last_boot c = Inr ?p"
      by auto
    with assms(6) unmarshal_valid show ?thesis
      by (simp add: record_ok_def)
  qed
  then have "simple_name (backup_Name ?p)" "valid_boot ?p"
    by simp_all
  from prepare_boot_restored [OF assms(3,4,17-21) _ this _ su] assms(11,16,22)
  have "hadPrev j \<and> prevBoot j = ?p \<and> restored (fs u) (backup_path (backup_Name ?p)) (fs x)"
    by simp
  with su show ?thesis
    by (auto simp: restored_def holds_snapshot_def prefix_def)
qed

text \<open>The host has booted the deployment d again; in the meantime the database was changed.\<close>

definition rolled_back_env :: env where
  "rolled_back_env = sample_env\<lparr>programs := sample_shell (CHR 0x7B # quote_string ''deployments'' @ CHR 0x3A # CHR 0x5B
     # CHR 0x7B # quote_string ''id'' @ CHR 0x3A # quote_string ''d'' @ CHR 0x2C
     # quote_string ''booted'' @ CHR 0x3A # ''true'' @ [CHR 0x7D, CHR 0x5D, CHR 0x7D])\<rparr>"

definition rolled_back :: files where
  "rolled_back = set_node restore_marker (File '''') 5 (set_node (etcd_data_dir @ [''db'']) (File ''new'') 6 upgraded_files)"

lemma rollback_recovers_witness:
  "look (snd (prepare_boot rolled_back_env ''1'' (quiet rolled_back))) (etcd_data_dir @ [''db'']) = Some (File ''e'')"
proof -
  let ?i = second_info
  let ?j = "\<lparr>useBackups = True, currentDeployment = ''d'', currentBoot = ''c'', prevBoot = live_boot, hadPrev = True\<rparr>"
  let ?m = "prepare_boot rolled_back_env ''1'' (quiet rolled_back)"
  let ?v = "snd (prepare_boot ostree_env ''2'' (quiet second_boot))"
  have "fst ?m = Ok ?j"
    by code_simp
  then have m: "prepare_boot ostree_env ''2'' (quiet second_boot) = (Ok ?i, ?v)" "?m = (Ok ?j, snd ?m)"
    using second_boot_run(1) by (simp_all add: prod_eq_iff)
  note v = second_boot_run(2)
  have n: "backup_Name (prevBoot ?i) = ''d_b''"
    by code_simp
  have w: "wf_files (fs (quiet second_boot))" "record_ok (fs (quiet second_boot))" "look (quiet second_boot) restore_marker = None"
    "look (quiet second_boot) (backup_path (backup_Name (prevBoot ?i))) = None"
    by code_simp+
  have u: "wf_files (fs (quiet rolled_back))" "clean_names (fs (quiet rolled_back))" "look (quiet rolled_back) restore_marker \<noteq> None"
    by code_simp+
  have c: "cp_contract (programs ostree_env)" "status_reads_only (programs ostree_env)"
    "cp_contract (programs rolled_back_env)" "status_reads_only (programs rolled_back_env)"
    by (simp_all add: ostree_env_def rolled_back_env_def cp_contract_sample status_reads_only_def sample_shell_def status_call_def)
  have kept: "\<forall>q \<in> below (backup_path (backup_Name (prevBoot ?i))). look (quiet rolled_back) q = look ?v q"
    by (auto simp: n v rolled_back_def paths_defs prefix_def)
  have "fst (backup_List (quiet rolled_back)) = Ok [''d_b'']"
    by code_simp
  then have "backup_List (quiet rolled_back) = (Ok [''d_b''], snd (backup_List (quiet rolled_back)))"
    by (cases "backup_List (quiet rolled_back)") simp
  from backup_List_Ok(2) [OF this u(1)] have one: "is_backup (fs (quiet rolled_back)) k \<longleftrightarrow> k = ''d_b''" for k
    by auto
  have "prefix (deployment_id (prevBoot ?i) @ ''_'') ''d_b''"
    by code_simp
  then have newest: "\<forall>k. newest_backup (fs (quiet rolled_back)) (prefix (deployment_id (prevBoot ?i) @ ''_'')) k \<longleftrightarrow>
      k = backup_Name (prevBoot ?i)"
    unfolding newest_backup_def one by (simp add: n) blast
  have "look (snd ?m) (etcd_data_dir @ [''db'']) = look (quiet second_boot) (etcd_data_dir @ [''db''])"
    using rollback_recovers [OF c w(1-3) m(1) _ _ _ _ _ w(4) kept newest u m(2)] by (simp add: second_info_def live_boot_def)
  also have "\<dots> = Some (File ''e'')"
    by code_simp
  finally show ?thesis .
qed

end
