(* ===== verification/Reset.thy ===== *)
theory Reset
imports Lifecycle
begin

text \<open>
  cmd/nanok8s/reset.go: tearing a node down.  The programs it runs and the system calls it makes on
  mounts are calls of the parameter \<open>sh\<close>; their failures are logged, and only the removal of a tree
  can make it fail.
\<close>

section \<open>Operations\<close>

definition say_reset :: "string \<Rightarrow> unit io" where
  "say_reset s = logf (''[reset] '' @ s)"

definition cmd :: "string list \<Rightarrow> call" where
  "cmd ss = map Word ss"

definition lookPath :: "shell \<Rightarrow> string \<Rightarrow> bool io" where
  "lookPath sh name = seq (extern sh (cmd [''LookPath'', name])) (\<lambda>r. return (failure r = None))"

definition stopKubelet :: "shell \<Rightarrow> unit io" where
  "stopKubelet sh =
     seq (extern sh (cmd [''systemctl'', ''stop'', ''kubelet.service''])) (\<lambda>r. case failure r of
         Some e \<Rightarrow> say_reset (''systemctl stop kubelet.service (continuing): '' @ err_text e @ '': '' @ trim_space (combined r))
       | None \<Rightarrow> say_reset ''stopped kubelet.service'')"

text \<open>bufio.Scanner on lines: it stops with an error at a line that does not fit its buffer.\<close>

definition max_token :: int where
  "max_token = 64 * 1024"

fun scan_ids :: "string list \<Rightarrow> err + string list" where
  "scan_ids [] = Inr []"
| "scan_ids (l # ls) =
     (if max_token \<le> int (length l) then Inl (Text ''bufio.Scanner: token too long'')
      else (case scan_ids ls of Inl e \<Rightarrow> Inl e
        | Inr ids \<Rightarrow> Inr (if trim_space l \<noteq> '''' then trim_space l # ids else ids)))"

definition crictlListContainers :: "shell \<Rightarrow> string list io" where
  "crictlListContainers sh =
     seq (extern sh (cmd [''crictl'', ''ps'', ''--all'', ''--quiet''])) (\<lambda>r. case failure r of
         Some e \<Rightarrow> raise (Wrap ''crictl ps: '' e ('': '' @ trim_space (stderr r)))
       | None \<Rightarrow> (case scan_ids (split_on (CHR 0x0A) (stdout r)) of Inl e \<Rightarrow> raise e | Inr ids \<Rightarrow> return ids))"

definition crictlRun :: "shell \<Rightarrow> string list \<Rightarrow> unit io" where
  "crictlRun sh args =
     seq (extern sh (cmd (''crictl'' # args))) (\<lambda>r. case failure r of
         Some e \<Rightarrow> raise (Wrap (''crictl '' @ join_with '' '' args @ '': '') e ('': '' @ trim_space (stderr r)))
       | None \<Rightarrow> return ())"

definition cleanupCRIContainers :: "shell \<Rightarrow> unit io" where
  "cleanupCRIContainers sh =
     seq (lookPath sh ''crictl'') (\<lambda>found.
       if \<not> found then say_reset ''crictl not found, skipping container cleanup''
       else seq (attempt (crictlListContainers sh)) (\<lambda>x. case x of
           Inl e \<Rightarrow> say_reset (''list CRI containers (continuing): '' @ err_text e)
         | Inr ids \<Rightarrow>
             if ids = [] then say_reset ''no CRI containers to remove''
             else after (on_err (crictlRun sh ([''stop'', ''--timeout'', ''5''] @ ids))
                    (\<lambda>e. say_reset (''crictl stop (continuing): '' @ err_text e)))
                 (after (on_err (crictlRun sh ([''rm'', ''--force''] @ ids))
                    (\<lambda>e. say_reset (''crictl rm (continuing): '' @ err_text e)))
                   (say_reset (''removed '' @ show_nat (length ids) @ '' CRI containers'')))))"

text \<open>The second field of each line of /proc/mounts that starts with the directory of the kubelet, as it
  is written there, and in descending order.\<close>

definition mounts_file :: path where
  "mounts_file = [''proc'', ''mounts'']"

fun mount_targets :: "string list \<Rightarrow> string list" where
  "mount_targets [] = []"
| "mount_targets (l # ls) =
     (case split_on CHR '' '' l of
        _ # t # _ \<Rightarrow> if has_prefix t (path_text kubelet_dir @ ''/'') then t # mount_targets ls else mount_targets ls
      | _ \<Rightarrow> mount_targets ls)"

definition unmount_order :: "string \<Rightarrow> string list" where
  "unmount_order raw = rev (sort (mount_targets (split_on (CHR 0x0A) raw)))"

definition unmount_call :: "string \<Rightarrow> call" where
  "unmount_call t = cmd [''syscall.Unmount'', t, ''MNT_DETACH'']"

fun unmount_all :: "shell \<Rightarrow> string list \<Rightarrow> nat \<Rightarrow> nat io" where
  "unmount_all sh [] n = return n"
| "unmount_all sh (t # ts) n =
     seq (extern sh (unmount_call t)) (\<lambda>r. case failure r of
         Some e \<Rightarrow> after (say_reset (''unmount '' @ t @ '' (continuing): '' @ err_text e)) (unmount_all sh ts n)
       | None \<Rightarrow> unmount_all sh ts (n + 1))"

definition unmountKubeletMounts :: "shell \<Rightarrow> unit io" where
  "unmountKubeletMounts sh =
     seq (attempt (read_file mounts_file)) (\<lambda>x. case x of
         Inl e \<Rightarrow> say_reset (''read /proc/mounts (continuing): '' @ err_text e)
       | Inr raw \<Rightarrow> seq (unmount_all sh (unmount_order raw) 0) (\<lambda>n.
           if 0 < n then say_reset (''unmounted '' @ show_nat n @ '' kubelet mounts under '' @ path_text kubelet_dir)
           else return ()))"

definition cniInterfaces :: "string list" where
  "cniInterfaces = [''cni0'', ''flannel.1'', ''cilium_host'', ''cilium_net'', ''cilium_vxlan'', ''kube-ipvs0'',
     ''dummy0'', ''weave'', ''vxlan.calico'']"

definition interfaceExists :: "shell \<Rightarrow> string \<Rightarrow> bool io" where
  "interfaceExists sh name =
     seq (extern sh (cmd [''ip'', ''link'', ''show'', name])) (\<lambda>r. return (failure r = None))"

definition deleteCNIInterfaces :: "shell \<Rightarrow> unit io" where
  "deleteCNIInterfaces sh =
     seq (lookPath sh ''ip'') (\<lambda>found.
       if \<not> found then say_reset ''iproute2 `ip` not found, skipping CNI interface cleanup''
       else for_each cniInterfaces (\<lambda>name.
         seq (interfaceExists sh name) (\<lambda>ok.
           if \<not> ok then return ()
           else seq (extern sh (cmd [''ip'', ''link'', ''delete'', name])) (\<lambda>r. case failure r of
               Some e \<Rightarrow> say_reset (''ip link delete '' @ name @ '' (continuing): '' @ err_text e @ '': '' @ trim_space (combined r))
             | None \<Rightarrow> say_reset (''deleted interface '' @ name)))))"

definition iptables_args :: "string list list" where
  "iptables_args = concat (map (\<lambda>t. map (\<lambda>op. [''-t'', t, op]) [''-F'', ''-X'']) [''filter'', ''nat'', ''mangle''])"

definition flushIptables :: "shell \<Rightarrow> unit io" where
  "flushIptables sh =
     seq (lookPath sh ''iptables'') (\<lambda>found.
       if \<not> found then say_reset ''iptables not found, skipping iptables flush''
       else after (for_each iptables_args (\<lambda>args.
           seq (extern sh (cmd (''iptables'' # args))) (\<lambda>r. case failure r of
               Some e \<Rightarrow> say_reset (''iptables '' @ join_with '' '' args @ '' (continuing): '' @ err_text e @ '': '' @ trim_space (combined r))
             | None \<Rightarrow> return ())))
         (say_reset ''flushed iptables (filter/nat/mangle)''))"

definition flushIPVS :: "shell \<Rightarrow> unit io" where
  "flushIPVS sh =
     seq (lookPath sh ''ipvsadm'') (\<lambda>found.
       if \<not> found then say_reset ''ipvsadm not found, skipping IPVS flush''
       else seq (extern sh (cmd [''ipvsadm'', ''-C''])) (\<lambda>r. case failure r of
           Some e \<Rightarrow> say_reset (''ipvsadm -C (continuing): '' @ err_text e @ '': '' @ trim_space (combined r))
         | None \<Rightarrow> say_reset ''flushed IPVS rules''))"

definition managed_dirs :: "path list" where
  "managed_dirs = [kubernetes_dir, etcd_data_dir, kubelet_dir, nanok8s_var_dir]"

definition remove_tree :: "path \<Rightarrow> unit io" where
  "remove_tree t =
     after (wrapped (''remove '' @ path_text t @ '': '') (remove_all t)) (say_reset (''removed '' @ path_text t))"

definition runReset :: "shell \<Rightarrow> unit io" where
  "runReset sh =
     after (stopKubelet sh)
    (after (cleanupCRIContainers sh)
    (after (unmountKubeletMounts sh)
    (after (for_each managed_dirs remove_tree)
    (after (deleteCNIInterfaces sh)
    (after (flushIptables sh)
           (flushIPVS sh))))))"

definition reset_cmd :: "shell \<Rightarrow> bool \<Rightarrow> unit io" where
  "reset_cmd sh confirm =
     (if \<not> confirm then raise (Text ''refusing to proceed without --yes (this is destructive)'') else runReset sh)"

section \<open>Steps that cannot fail\<close>

definition infallible :: "'a io \<Rightarrow> bool" where
  "infallible m \<longleftrightarrow> (\<forall>w e v. m w \<noteq> (Err e, v))"

named_theorems safe \<open>steps that return no error\<close>

lemma infallible_basic [safe]: "infallible (return x)" "infallible (logf s)" "infallible (say_reset s)" "infallible (extern sh c)"
  by (auto simp: infallible_def return_def logf_def say_reset_def extern_def Let_def split: prod.split)

lemma infallible_attempt [safe]: "infallible (attempt m)"
  by (auto simp: infallible_def attempt_def split: prod.splits res.splits)

lemma infallible_seq [safe]: "infallible m \<Longrightarrow> (\<And>x. infallible (k x)) \<Longrightarrow> infallible (seq m k)"
  by (auto simp: infallible_def seq_def split: prod.splits res.splits)

lemma infallible_after [safe]: "infallible m \<Longrightarrow> infallible n \<Longrightarrow> infallible (after m n)"
  by (simp add: after_def infallible_seq)

lemma infallible_on_err [safe]: "(\<And>e. infallible (h e)) \<Longrightarrow> infallible (on_err m h)"
  by (auto simp: infallible_def on_err_def split: prod.splits res.splits)

lemma infallible_for_each [safe]: "(\<And>x. infallible (f x)) \<Longrightarrow> infallible (for_each xs f)"
  by (induction xs) (auto intro: safe)

lemma infallible_unmount_all [safe]: "infallible (unmount_all sh ts n)"
  by (induction ts arbitrary: n) (auto intro!: safe split: option.split)

lemma infallible_lookPath [safe]: "infallible (lookPath sh n)" "infallible (interfaceExists sh n)"
  unfolding lookPath_def interfaceExists_def by (intro safe)+

lemma infallible_steps [safe]:
  "infallible (stopKubelet sh)" "infallible (cleanupCRIContainers sh)" "infallible (unmountKubeletMounts sh)"
  "infallible (deleteCNIInterfaces sh)" "infallible (flushIptables sh)" "infallible (flushIPVS sh)"
  unfolding stopKubelet_def cleanupCRIContainers_def unmountKubeletMounts_def deleteCNIInterfaces_def
    flushIptables_def flushIPVS_def
  by (auto intro!: safe split: option.split sum.split)

lemma infallibleD: "infallible m \<Longrightarrow> m w = (Err e, v) \<Longrightarrow> False"
  by (simp add: infallible_def)

lemma after_infallible: "infallible m \<Longrightarrow> after m n w = (Err e, v) \<Longrightarrow> \<exists>u. n u = (Err e, v)"
  by (auto simp: after_def infallible_def seq_def split: prod.splits res.splits)

lemma after_infallible_last: "infallible n \<Longrightarrow> after m n w = (Err e, v) \<Longrightarrow> m w = (Err e, v)"
  by (auto simp: after_def infallible_def seq_def split: prod.splits res.splits)

lemma remove_trees_Err:
  "for_each ts remove_tree w = (Err e, v) \<Longrightarrow> \<exists>t \<in> set ts. \<exists>e'. e = Wrap (''remove '' @ path_text t @ '': '') e' ''''"
proof (induction ts arbitrary: w)
  case Nil
  then show ?case
    by (simp add: return_def)
next
  case (Cons t ts)
  have "remove_tree t x = (Err e, y) \<Longrightarrow> \<exists>e'. e = Wrap (''remove '' @ path_text t @ '': '') e' ''''" for x y
    by (auto simp: remove_tree_def after_def seq_def wrapped_def on_err_def raise_def say_reset_def logf_def
        split: prod.splits res.splits)
  with Cons show ?case
    by (auto simp: after_def seq_def split: prod.splits res.splits)
qed

section \<open>The calls of a reset\<close>

definition reset_programs :: "string list" where
  "reset_programs = [''systemctl'', ''crictl'', ''syscall.Unmount'', ''LookPath'', ''ip'', ''iptables'', ''ipvsadm'']"

definition network_programs :: "string list" where
  "network_programs = [''LookPath'', ''ip'', ''iptables'', ''ipvsadm'']"

fun runs_one_of :: "string list \<Rightarrow> call \<Rightarrow> bool" where
  "runs_one_of ps (Word p # _) \<longleftrightarrow> p \<in> set ps"
| "runs_one_of ps _ \<longleftrightarrow> False"

lemma runs_cmd [simp]: "runs_one_of ps (cmd (p # as)) \<longleftrightarrow> p \<in> set ps"
  by (simp add: cmd_def)

lemma network_runs: "runs_one_of network_programs c \<Longrightarrow> runs_one_of reset_programs c"
  by (cases c rule: runs_one_of.cases [of "(network_programs, c)" for c, simplified])
    (auto simp: network_programs_def reset_programs_def)

context files_rel
begin

lemma gu_network_steps:
  assumes "\<And>c. runs_one_of network_programs c \<Longrightarrow> guarantees R (extern sh c)"
  shows "guarantees R (after (deleteCNIInterfaces sh) (after (flushIptables sh) (flushIPVS sh)))"
  unfolding deleteCNIInterfaces_def flushIptables_def flushIPVS_def lookPath_def interfaceExists_def say_reset_def
  by (auto intro!: gu_rules assms split: option.split simp: network_programs_def)

lemma gu_unmount_all:
  assumes "\<And>c. runs_one_of reset_programs c \<Longrightarrow> guarantees R (extern sh c)"
  shows "guarantees R (unmount_all sh ts n)"
  by (induction ts arbitrary: n)
    (auto intro!: gu_rules assms split: option.split simp: unmount_call_def reset_programs_def say_reset_def)

lemma gu_first_steps:
  assumes "\<And>c. runs_one_of reset_programs c \<Longrightarrow> guarantees R (extern sh c)"
  shows "guarantees R (stopKubelet sh)" "guarantees R (cleanupCRIContainers sh)" "guarantees R (unmountKubeletMounts sh)"
  unfolding stopKubelet_def cleanupCRIContainers_def unmountKubeletMounts_def lookPath_def crictlListContainers_def
    crictlRun_def say_reset_def
  by (auto intro!: gu_rules gu_unmount_all assms split: option.split sum.split simp: reset_programs_def)

end

section \<open>What is removed\<close>

definition managed :: "path set" where
  "managed = below kubernetes_dir \<union> below etcd_data_dir \<union> below kubelet_dir \<union> below nanok8s_var_dir"

lemma managed_dirs_below: "managed = (\<Union>d \<in> set managed_dirs. below d)"
  by (auto simp: managed_def managed_dirs_def)

lemma remove_tree_Ok:
  assumes "remove_tree t w = (Ok (), v)" "wf_files (fs w)"
  shows "\<forall>q \<in> below t. look v q = None"
proof -
  from assms(1) obtain u where u: "remove_all t w = (Ok (), u)" "fs v = fs u"
    by (auto simp: remove_tree_def run_simps say_reset_def)
  from remove_all_Ok [OF u(1)] show ?thesis
    using wf_below_absent [OF assms(2)] by (auto simp: u(2))
qed

lemma remove_tree_guarantees:
  "t \<noteq> [] \<Longrightarrow> guarantees keeps_wf (remove_tree t)" "guarantees only_removes (remove_tree t)"
  "below t \<subseteq> A \<Longrightarrow> guarantees (same_outside A) (remove_tree t)"
  unfolding remove_tree_def say_reset_def by (auto intro!: guar)

lemma remove_trees_Ok:
  "for_each ts remove_tree w = (Ok (), v) \<Longrightarrow> wf_files (fs w) \<Longrightarrow> [] \<notin> set ts \<Longrightarrow>
     \<forall>t \<in> set ts. \<forall>q \<in> below t. look v q = None"
proof (induction ts arbitrary: w)
  case (Cons t ts)
  from Cons.prems(1) obtain u where u: "remove_tree t w = (Ok (), u)" "for_each ts remove_tree u = (Ok (), v)"
    by (auto simp: run_simps simp del: for_each.simps)
  have "guarantees only_removes (for_each ts remove_tree)"
    by (intro removing.gu_for_each remove_tree_guarantees)
  from guaranteesD [OF this u(2)] have "\<forall>q \<in> below t. look v q = None"
    using remove_tree_Ok [OF u(1) Cons.prems(2)] by (auto simp: only_removes_def)
  moreover have "t \<noteq> []"
    using Cons.prems(3) by auto
  from guaranteesD [OF remove_tree_guarantees(1) [OF this] u(1)] have "wf_files (fs u)"
    using Cons.prems(2) by (simp add: keeps_wf_def)
  from Cons.IH [OF u(2) this] Cons.prems(3) have "\<forall>t \<in> set ts. \<forall>q \<in> below t. look v q = None"
    by simp
  ultimately show ?case
    by simp
qed simp

lemma managed_dirs_simps: "[] \<notin> set managed_dirs" "t \<in> set managed_dirs \<Longrightarrow> below t \<subseteq> managed"
  by (auto simp: managed_dirs_below) (auto simp: managed_dirs_def paths_defs)

section \<open>Properties\<close>

lemma reset_removed:
  assumes "confined sh (runs_one_of reset_programs) B" and "confined sh (runs_one_of network_programs) A"
    and "A \<inter> managed = {}" and "wf_files (fs w)" and "reset_cmd sh confirm w = (Ok (), v)"
  shows "\<forall>q \<in> managed. look v q = None"
proof -
  have eA: "guarantees (same_outside A) (extern sh c)" if "runs_one_of network_programs c" for c
    by (rule outside_confined [OF assms(2) that])
  have eW: "guarantees keeps_wf (extern sh c)" if "runs_one_of reset_programs c" for c
    by (rule wf_confined [OF assms(1) that])
  have run: "runReset sh w = (Ok (), v)"
    using assms(5) by (simp add: reset_cmd_def raise_run split: if_splits)
  from run obtain a b c d where s: "stopKubelet sh w = (Ok (), a)" "cleanupCRIContainers sh a = (Ok (), b)"
    "unmountKubeletMounts sh b = (Ok (), c)" and t: "for_each managed_dirs remove_tree c = (Ok (), d)"
    and n: "after (deleteCNIInterfaces sh) (after (flushIptables sh) (flushIPVS sh)) d = (Ok (), v)"
    unfolding runReset_def by (auto simp: after_Ok)
  have "wf_files (fs c)"
    using guaranteesD [OF wfr.gu_first_steps(1) [OF eW] s(1)] guaranteesD [OF wfr.gu_first_steps(2) [OF eW] s(2)]
      guaranteesD [OF wfr.gu_first_steps(3) [OF eW] s(3)] assms(4) by (simp add: keeps_wf_def)
  from remove_trees_Ok [OF t this managed_dirs_simps(1)] have "\<forall>q \<in> managed. look d q = None"
    by (auto simp: managed_dirs_below)
  moreover have "look v q = look d q" if "q \<in> managed" for q
    using same_outsideD [OF guaranteesD [OF outside.gu_network_steps [OF eA] n]] that assms(3) by blast
  ultimately show ?thesis
    by simp
qed

text \<open>C20: a reset that succeeds has removed the four trees, with everything in them; whatever fails or
  crashes, nothing else has changed than what the programs it runs may change.  It does nothing without
  the confirmation.\<close>

theorem reset_cmd_removes:
  assumes "confined sh (runs_one_of reset_programs) B" and "confined sh (runs_one_of network_programs) A"
    and "A \<inter> managed = {}" and "wf_files (fs w)" and "reset_cmd sh confirm w = (r, v)"
  shows "(r = Ok () \<longrightarrow> confirm \<and> (\<forall>q \<in> managed. look v q = None)) \<and>
    (\<forall>q. q \<notin> managed \<union> A \<union> B \<longrightarrow> look v q = look w q) \<and>
    (\<not> confirm \<longrightarrow> v = w \<and> r = Err (Text ''refusing to proceed without --yes (this is destructive)''))"
proof (cases confirm)
  case False
  with assms(5) show ?thesis
    by (auto simp: reset_cmd_def run_simps)
next
  case True
  with assms(5) have run: "runReset sh w = (r, v)"
    by (simp add: reset_cmd_def)
  let ?Z = "managed \<union> A \<union> B"
  have eB: "guarantees (same_outside B) (extern sh c)" if "runs_one_of reset_programs c" for c
    by (rule outside_confined [OF assms(1) that])
  have eA: "guarantees (same_outside A) (extern sh c)" if "runs_one_of network_programs c" for c
    by (rule outside_confined [OF assms(2) that])
  have trees: "guarantees (same_outside ?Z) (for_each managed_dirs remove_tree)"
    by (intro outside.gu_for_each remove_tree_guarantees) (use managed_dirs_simps in blast)
  have mono: "B \<subseteq> ?Z" "A \<subseteq> ?Z"
    by auto
  have "guarantees (same_outside ?Z) (runReset sh)"
    unfolding runReset_def
    by (intro outside.gu_after trees
        guarantees_outside_mono [OF outside.gu_first_steps(1) [OF eB] mono(1)]
        guarantees_outside_mono [OF outside.gu_first_steps(2) [OF eB] mono(1)]
        guarantees_outside_mono [OF outside.gu_first_steps(3) [OF eB] mono(1)]
        guarantees_outside_mono [OF outside.gu_network_steps [OF eA] mono(2)])
  from guaranteesD [OF this run] have frame: "\<forall>q. q \<notin> ?Z \<longrightarrow> look v q = look w q"
    by (simp add: same_outside_def)
  have "\<forall>q \<in> managed. look v q = None" if "r = Ok ()"
    by (rule reset_removed [OF assms(1-4) assms(5) [unfolded that]])
  with True frame show ?thesis
    by simp
qed

definition used_node :: files where
  "used_node = \<lparr>ents = [([], Dir), ([''etc''], Dir), (kubernetes_dir, Dir), (manifests_dir, Dir),
     (manifests_dir @ [''kube-apiserver.yaml''], File ''pod''), ([''var''], Dir), ([''var'', ''lib''], Dir),
     (etcd_data_dir, Dir), (etcd_data_dir @ [''db''], File ''data''), (nanok8s_var_dir, Dir), (state_dir, Dir),
     (last_event_file, File ''bootstrapped'')], stamps = []\<rparr>"

lemma not_cp_runs: "runs_one_of ps c \<Longrightarrow> ''cp'' \<notin> set ps \<Longrightarrow> c \<noteq> [] \<and> hd c \<noteq> Word ''cp''"
  by (cases c; cases "hd c") auto

lemma confined_reset: "confined (sample_shell out) (runs_one_of reset_programs) A" "confined (sample_shell out) (runs_one_of network_programs) A"
  using not_cp_runs by (auto intro!: confined_sample simp: reset_programs_def network_programs_def)

lemma reset_cmd_removes_witness:
  "look (snd (reset_cmd (sample_shell '''') True (quiet used_node))) (etcd_data_dir @ [''db'']) = None"
proof -
  let ?m = "reset_cmd (sample_shell '''') True (quiet used_node)"
  have "fst ?m = Ok ()"
    by code_simp
  then have m: "?m = (Ok (), snd ?m)"
    by (cases ?m) simp
  have "wf_files (fs (quiet used_node))"
    by code_simp
  from reset_cmd_removes [OF confined_reset(1) [of _ "{}"] confined_reset(2) [of _ "{}"] _ this m] show ?thesis
    by (simp add: managed_def)
qed

text \<open>C31: nothing the reset runs can make it fail: an error it returns is that of the removal of one of the
  four trees.\<close>

theorem runReset_only_removal_fails:
  assumes "runReset sh w = (Err e, v)"
  shows "\<exists>t \<in> set managed_dirs. \<exists>e'. e = Wrap (''remove '' @ path_text t @ '': '') e' ''''"
proof -
  obtain a where a: "after (cleanupCRIContainers sh) (after (unmountKubeletMounts sh) (after (for_each managed_dirs remove_tree)
      (after (deleteCNIInterfaces sh) (after (flushIptables sh) (flushIPVS sh))))) a = (Err e, v)"
    using after_infallible [OF infallible_steps(1) assms [unfolded runReset_def]] by blast
  obtain b where b: "after (unmountKubeletMounts sh) (after (for_each managed_dirs remove_tree)
      (after (deleteCNIInterfaces sh) (after (flushIptables sh) (flushIPVS sh)))) b = (Err e, v)"
    using after_infallible [OF infallible_steps(2) a] by blast
  obtain c where c: "after (for_each managed_dirs remove_tree)
      (after (deleteCNIInterfaces sh) (after (flushIptables sh) (flushIPVS sh))) c = (Err e, v)"
    using after_infallible [OF infallible_steps(3) b] by blast
  have "infallible (after (deleteCNIInterfaces sh) (after (flushIptables sh) (flushIPVS sh)))"
    by (intro safe)
  from after_infallible_last [OF this c] show ?thesis
    by (rule remove_trees_Err)
qed

definition failing_removal :: world where
  "failing_removal = quiet used_node\<lparr>sched := [calm, calm, calm, calm, calm\<lparr>plan := Fail IOFault\<rparr>]\<rparr>"

lemma runReset_only_removal_fails_witness:
  "\<exists>t e'. t \<in> set managed_dirs \<and>
     fst (runReset (sample_shell []) failing_removal) = Err (Wrap (''remove '' @ path_text t @ '': '') e' [])"
proof -
  have "case fst (runReset (sample_shell []) failing_removal) of Err e \<Rightarrow> True | _ \<Rightarrow> False"
    by code_simp
  then obtain e v where run: "runReset (sample_shell []) failing_removal = (Err e, v)"
    by (cases "runReset (sample_shell []) failing_removal") (auto split: res.splits)
  from runReset_only_removal_fails [OF this] show ?thesis
    unfolding run by auto
qed

lemma strict_prefix_less: "strict_prefix t u \<Longrightarrow> t < (u :: string)"
  by (auto simp: strict_prefix_def prefix_def list_less_def neq_Nil_conv intro: lexord_append_rightI)


end
