(* ===== verification/Cli.thy ===== *)
theory Cli
imports Reset Boot_Safety
begin

text \<open>
  cmd/nanok8s: the commands.  What a command prints is a line of its log.  The wait of boot for a signal
  is left out: the command returns when it comes.
\<close>

section \<open>Commands\<close>

definition hostname_call :: call where
  "hostname_call = cmd [''os.Hostname'']"

definition defaultNodeName :: "shell \<Rightarrow> string io" where
  "defaultNodeName sh = seq (lib_call sh ''get hostname: '' hostname_call) (\<lambda>r. return (to_lower (stdout r)))"

definition initialise_node :: "env \<Rightarrow> nanok8s_config \<Rightarrow> unit io" where
  "initialise_node env cfg =
     seq (defaultNodeName (programs env)) (\<lambda>nodeName.
     after (Ensure (programs env) (defaults env) cfg DefaultLayout nodeName)
    (after (wrapped ''record bootstrap event: '' (WriteLastEvent (''bootstrapped at '' @ KubernetesVersion)))
           (logf (''bootstrap complete (node='' @ nodeName @ '', kubernetesVersion='' @ KubernetesVersion @ '')'' @
              [CHR 0x0A] @ ''next step: `systemctl enable --now nanok8s.service`''))))"

definition bootstrap_cmd :: "env \<Rightarrow> decoder \<Rightarrow> path \<Rightarrow> bool \<Rightarrow> unit io" where
  "bootstrap_cmd env yaml configPath force =
     seq state_Exists (\<lambda>existed.
       if existed \<and> \<not> force
       then raise (Text (''nanok8s state already exists; re-run with --force to re-initialise, '' @
         ''or use `nanok8s reset --yes` first''))
       else seq (Load yaml configPath) (initialise_node env))"

definition boot_cmd :: "env \<Rightarrow> decoder \<Rightarrow> path \<Rightarrow> unit io" where
  "boot_cmd env yaml configPath =
     seq (Load yaml configPath) (\<lambda>cfg.
     seq (defaultNodeName (programs env)) (\<lambda>nodeName. Boot env cfg nodeName KubernetesVersion))"

definition validate_cmd :: "decoder \<Rightarrow> path \<Rightarrow> unit io" where
  "validate_cmd yaml configPath =
     seq (Load yaml configPath) (\<lambda>cfg.
       logf (''config '' @ path_text configPath @ '' is valid (kubernetesVersion='' @ KubernetesVersion @
         '', advertiseAddress='' @ advertiseAddress (controlPlane (spec cfg)) @ '')''))"

text \<open>The encoder is the counterpart of the decoder in package yaml.\<close>

definition print_defaults_cmd :: "encoder \<Rightarrow> unit io" where
  "print_defaults_cmd marshal = (case Marshal marshal NewDefault of Inl e \<Rightarrow> raise e | Inr doc \<Rightarrow> logf doc)"

definition GitCommit :: string where "GitCommit = ''unknown''"
definition BuildDate :: string where "BuildDate = ''unknown''"

definition version_cmd :: "unit io" where
  "version_cmd = logf (''nanok8s   kubernetes='' @ KubernetesVersion @ '' commit='' @ GitCommit @ '' built='' @ BuildDate)"

section \<open>Facts\<close>

lemma state_Exists_unchanged: "guarantees unchanged state_Exists" "only_calls Q state_Exists"
  unfolding state_Exists_def any_exists.simps fileExists_def by (auto intro!: guar split: sum.split)

lemma Load_unchanged: "guarantees unchanged (Load yaml p)" "only_calls Q (Load yaml p)"
  unfolding Load_def parse_config_def by (auto intro!: guar simp: Let_def split: sum.split option.split)

text \<open>A computation that has changed no file and made no call.\<close>

definition idle :: "world \<Rightarrow> world \<Rightarrow> bool" where
  "idle w v \<longleftrightarrow> fs v = fs w \<and> trace v = trace w"

lemma idleI: "guarantees unchanged m \<Longrightarrow> only_calls (\<lambda>_. False) m \<Longrightarrow> m w = (r, v) \<Longrightarrow> idle w v"
  by (drule (1) guaranteesD, drule (1) relatesD) (auto simp: idle_def unchanged_def grows_def)

lemma idle_trans: "idle w u \<Longrightarrow> idle u v \<Longrightarrow> idle w v"
  by (simp add: idle_def)

lemmas idle_Exists = idleI [OF state_Exists_unchanged]
lemmas idle_Load = idleI [OF Load_unchanged]

lemma bootstrap_refused:
  assumes "\<exists>p \<in> set [last_boot_file, last_event_file, manifests_dir @ [''kube-apiserver.yaml'']]. look w p \<noteq> None"
    and "bootstrap_cmd env yaml p False w = (r, v)"
  shows "r \<noteq> Ok () \<and> idle w v"
  using assms(2) [unfolded bootstrap_cmd_def]
proof (cases rule: seq_cases)
  case (through b u)
  have "b"
    using any_exists_Ok [OF through(1) [unfolded state_Exists_def]] assms(1) by blast
  with through idle_Exists [OF through(1)] show ?thesis
    by (simp add: run_simps)
next
  case (stopped r')
  with idle_Exists [OF stopped(1)] show ?thesis
    by blast
qed

lemma wf_not_cp:
  assumes "confined sh not_cp UNIV"
  shows "guarantees keeps_wf (defaultNodeName sh)" "guarantees keeps_wf (Ensure sh dflt cfg l node)"
proof -
  have "not_cp hostname_call"
    by (simp add: not_cp_def hostname_call_def cmd_def)
  from wf_lib_call [OF assms this] show "guarantees keeps_wf (defaultNodeName sh)"
    unfolding defaultNodeName_def by (intro guar)
  show "guarantees keeps_wf (Ensure sh dflt cfg l node)"
    by (rule wf_Ensure [OF assms phases_not_cp])
qed

lemma bootstrap_records:
  assumes "confined (programs env) not_cp UNIV" and "wf_files (fs w)" and "bootstrap_cmd env yaml p force w = (Ok (), v)"
  shows "look v last_event_file = Some (File (''bootstrapped at '' @ KubernetesVersion @ [CHR 0x0A]))"
proof -
  from assms(3) obtain ex a cfg b node c d e where
    a: "state_Exists w = (Ok ex, a)" and b: "Load yaml p a = (Ok cfg, b)" and
    c: "defaultNodeName (programs env) b = (Ok node, c)" and
    d: "Ensure (programs env) (defaults env) cfg DefaultLayout node c = (Ok (), d)" and
    e: "WriteLastEvent (''bootstrapped at '' @ KubernetesVersion) d = (Ok (), e)" and v: "fs v = fs e"
    unfolding bootstrap_cmd_def initialise_node_def by (auto simp: seq_Ok after_Ok wrapped_Ok raise_run logf_run split: if_splits)
  have "wf_files (fs b)"
    using idle_Exists [OF a] idle_Load [OF b] assms(2) by (simp add: idle_def)
  then have "wf_files (fs d)"
    using guaranteesD [OF wf_not_cp(1) [OF assms(1)] c] guaranteesD [OF wf_not_cp(2) [OF assms(1)] d]
    by (simp add: keeps_wf_def)
  moreover have "\<not> prefix ''.tmp-'' ''last-event''"
    by simp
  ultimately show ?thesis
    using write_atomic_Ok [of state_dir "''last-event''" "''bootstrapped at '' @ KubernetesVersion @ [CHR 0x0A]" d] e v
    by (simp add: WriteLastEvent_def last_event_split)
qed

section \<open>Properties\<close>

text \<open>C22: bootstrap runs once: after one that succeeded, a second one without the force flag is refused
  before it reads the configuration, makes a call or changes a file, also when its own checks of the
  state files fail.\<close>

theorem bootstrap_once:
  assumes "confined (programs env) not_cp UNIV" and "wf_files (fs w)"
    and "bootstrap_cmd env yaml p force w = (Ok (), v)"
    and "fs u = fs v" and "bootstrap_cmd env' yaml' p' False u = (r, x)"
  shows "r \<noteq> Ok () \<and> fs x = fs u \<and> trace x = trace u"
proof -
  have "look u last_event_file \<noteq> None"
    using bootstrap_records [OF assms(1-3)] assms(4) by simp
  then show ?thesis
    using bootstrap_refused [OF _ assms(5)] by (auto simp: idle_def)
qed

lemma bootstrap_once_witness:
  "fst (bootstrap_cmd sample_env fixed_decoder config_file False (quiet config_files)) = Ok () \<and>
   fst (bootstrap_cmd sample_env fixed_decoder config_file False
     (snd (bootstrap_cmd sample_env fixed_decoder config_file False (quiet config_files)))) \<noteq> Ok ()"
proof -
  let ?m = "bootstrap_cmd sample_env fixed_decoder config_file False (quiet config_files)"
  let ?cfg = "SetDefaults (minimal_config ''0.0.0.0'')"
  have "state_Exists (quiet config_files) = (Ok False, quiet config_files)"
    by (auto simp: state_Exists_def fileExists_def stat_def syscall_def tick_def calm_def quiet_def config_files_def
        lookup_def paths_defs run_simps absent_errno_def is_file_def file_above_def)
  then have "?m = initialise_node sample_env ?cfg (quiet config_files)"
    by (simp add: bootstrap_cmd_def seq_def Load_sample)
  moreover have "fst (initialise_node sample_env ?cfg (quiet config_files)) = Ok ()"
    by code_simp
  ultimately have ok: "fst ?m = Ok ()"
    by simp
  then have m: "?m = (Ok (), snd ?m)"
    by (cases ?m) simp
  have "confined (programs sample_env) not_cp UNIV"
    using sample_contract [of "''c''"] by (auto simp: sample_env_def programs_contract_def confined_def same_outside_def)
  moreover have "wf_files (fs (quiet config_files))"
    by code_simp
  ultimately show ?thesis
    using bootstrap_once [OF _ _ m refl prod.collapse [symmetric]] ok by blast
qed

text \<open>C23: no command acts on a bad configuration: if the file does not decode or the decoded configuration
  with the defaults filled in is not valid, then bootstrap, boot and config validate fail without a call
  and without a change.\<close>

theorem bad_config_stops:
  assumes "\<And>doc d. look w p = Some (File doc) \<Longrightarrow> yaml doc = Inr d \<Longrightarrow> \<not> valid_config (SetDefaults d)"
  shows "(case bootstrap_cmd env yaml p force w of (r, v) \<Rightarrow> r \<noteq> Ok () \<and> fs v = fs w \<and> trace v = trace w) \<and>
    (case boot_cmd env yaml p w of (r, v) \<Rightarrow> r \<noteq> Ok () \<and> fs v = fs w \<and> trace v = trace w) \<and>
    (case validate_cmd yaml p w of (r, v) \<Rightarrow> r \<noteq> Ok () \<and> fs v = fs w \<and> trace v = trace w)"
proof -
  have stop: "r \<noteq> Ok () \<and> idle w x" if "seq (Load yaml p) k u = (r, x)" "idle w u" for k :: "nanok8s_config \<Rightarrow> unit io" and r x u
    using that(1)
  proof (cases rule: seq_cases)
    case (through c y)
    then show ?thesis
      using Load_result [OF through(1)] assms that(2) by (auto simp: idle_def)
  next
    case (stopped r')
    with idle_Load [OF stopped(1)] that(2) show ?thesis
      by (blast intro: idle_trans)
  qed
  have same: "idle w w"
    by (simp add: idle_def)
  have A: "r \<noteq> Ok () \<and> idle w v" if "bootstrap_cmd env yaml p force w = (r, v)" for r v
    using that [unfolded bootstrap_cmd_def]
  proof (cases rule: seq_cases)
    case (through b u)
    with stop idle_Exists [OF through(1)] show ?thesis
      by (auto simp: run_simps split: if_splits)
  next
    case (stopped r')
    with idle_Exists [OF stopped(1)] show ?thesis
      by blast
  qed
  have B: "r \<noteq> Ok () \<and> idle w v" if "boot_cmd env yaml p w = (r, v)" for r v
    using stop [OF that [unfolded boot_cmd_def] same] .
  have C: "r \<noteq> Ok () \<and> idle w v" if "validate_cmd yaml p w = (r, v)" for r v
    using stop [OF that [unfolded validate_cmd_def] same] .
  show ?thesis
    using A [OF prod.collapse [symmetric]] B [OF prod.collapse [symmetric]] C [OF prod.collapse [symmetric]]
    by (simp only: idle_def case_prod_unfold simp_thms)
qed

text \<open>A document without the mandatory address.\<close>

definition zero_decoder :: decoder where
  "zero_decoder doc = Inr (minimal_config '''')"

lemma bad_config_stops_witness:
  "fst (bootstrap_cmd sample_env zero_decoder config_file False (quiet config_files)) \<noteq> Ok ()"
proof -
  have "ParseIP (advertiseAddress (controlPlane (spec (SetDefaults (minimal_config ''''))))) = None"
    by code_simp
  then have "\<not> valid_config (SetDefaults (minimal_config ''''))"
    by (simp add: valid_config_def Let_def)
  then have "case bootstrap_cmd sample_env zero_decoder config_file False (quiet config_files) of
      (r, v) \<Rightarrow> r \<noteq> Ok () \<and> fs v = fs (quiet config_files) \<and> trace v = trace (quiet config_files)"
    by (intro bad_config_stops [THEN conjunct1]) (auto simp: zero_decoder_def)
  then show ?thesis
    by (simp add: case_prod_unfold)
qed

text \<open>C28: a reset makes the node a fresh one: after a reset that succeeded, and as long as nothing else
  changed, the state files are reported absent, so bootstrap is not refused, there is no record of a
  boot, and no restore is requested.\<close>

theorem reset_makes_fresh:
  assumes "confined sh (runs_one_of reset_programs) B" and "confined sh (runs_one_of network_programs) A"
    and "A \<inter> managed = {}" and "wf_files (fs w)" and "reset_cmd sh confirm w = (Ok (), v)" and "fs u = fs v"
  shows "state_Exists u \<noteq> (Ok True, x) \<and> ReadLastBoot u \<noteq> (Ok (lb, True), x) \<and> RestoreRequested u \<noteq> (Ok True, x)"
proof -
  have gone: "look u q = None" if "q \<in> managed" for q
    using reset_removed [OF assms(1-5)] that assms(6) by simp
  have m: "last_boot_file \<in> managed" "last_event_file \<in> managed" "restore_marker \<in> managed"
    "manifests_dir @ [''kube-apiserver.yaml''] \<in> managed"
    by (simp_all add: managed_def paths_defs)
  have "\<not> (\<exists>p \<in> set [last_boot_file, last_event_file, manifests_dir @ [''kube-apiserver.yaml'']]. look u p \<noteq> None)"
    using gone m by simp
  then have "state_Exists u \<noteq> (Ok True, x)"
    using any_exists_Ok [of _ u True x] unfolding state_Exists_def by blast
  moreover have "ReadLastBoot u \<noteq> (Ok (lb, True), x)"
    using ReadLastBoot_Ok [of u lb True x] gone [OF m(1)] by auto
  moreover have "RestoreRequested u \<noteq> (Ok True, x)"
    using gone [OF m(3)] by (auto simp: RestoreRequested_def run_simps split: if_splits dest!: stat_Ok)
  ultimately show ?thesis
    by blast
qed

lemma reset_makes_fresh_witness:
  "fst (state_Exists (quiet used_node)) = Ok True \<and>
   fst (state_Exists (snd (reset_cmd (sample_shell '''') True (quiet used_node)))) \<noteq> Ok True"
proof -
  let ?m = "reset_cmd (sample_shell '''') True (quiet used_node)"
  have "fst ?m = Ok ()"
    by code_simp
  then have m: "?m = (Ok (), snd ?m)"
    by (cases ?m) simp
  have "wf_files (fs (quiet used_node))"
    by code_simp
  from reset_makes_fresh [OF confined_reset(1) [of _ "{}"] confined_reset(2) [of _ "{}"] _ this m refl]
  have "fst (state_Exists (snd ?m)) \<noteq> Ok True"
    by (cases "state_Exists (snd ?m)") auto
  moreover have "fst (state_Exists (quiet used_node)) = Ok True"
    by code_simp
  ultimately show ?thesis
    by blast
qed

end
