(* ===== verification/History.thy ===== *)
theory History
imports Rollback Cli
begin

text \<open>
  The life of a node: any sequence of bootstraps, boots and resets, each under its own schedule of
  failures and crashes, with changes from outside between them.  What the properties of a single run
  assume of the files of nanok8s holds in every state such a history reaches.
\<close>

section \<open>The invariant\<close>

text \<open>The record saved with a finished backup, as far as it decodes, names a backup by one component.\<close>

definition metas_ok :: "files \<Rightarrow> bool" where
  "metas_ok f \<longleftrightarrow> (\<forall>n c lb. \<not> suffix ''.tmp'' n \<longrightarrow> lookup f (backup_path n @ [meta_file_name]) = Some (File c) \<longrightarrow>
     unmarshal_last_boot c = Inr lb \<longrightarrow> simple_name (backup_Name lb))"

lemma metas_okI:
  assumes "metas_ok f" "\<And>n c. \<not> suffix ''.tmp'' n \<Longrightarrow> lookup g (backup_path n @ [meta_file_name]) = Some (File c) \<Longrightarrow>
    lookup f (backup_path n @ [meta_file_name]) = Some (File c)"
  shows "metas_ok g"
  using assms unfolding metas_ok_def by blast

definition store_ok :: "files \<Rightarrow> bool" where
  "store_ok f \<longleftrightarrow> wf_files f \<and> clean_backups f \<and> record_ok f \<and> metas_ok f"

lemma store_okD: "store_ok f \<Longrightarrow> wf_files f" "store_ok f \<Longrightarrow> clean_backups f" "store_ok f \<Longrightarrow> record_ok f" "store_ok f \<Longrightarrow> metas_ok f"
  by (simp_all add: store_ok_def)

definition records :: "path set" where
  "records = insert last_boot_file {backup_path n @ [meta_file_name] |n. \<not> suffix ''.tmp'' n}"

abbreviation keeps_store :: "files \<Rightarrow> files \<Rightarrow> bool" where
  "keeps_store \<equiv> \<lambda>f g. store_ok f \<longrightarrow> store_ok g"

interpretation storing: files_rel keeps_store
  by unfold_locales auto

lemma storing_runs:
  assumes "\<And>w r v. m w = (r, v) \<Longrightarrow> store_ok (fs w) \<Longrightarrow> store_ok (fs v)"
  shows "guarantees keeps_store m"
  unfolding guarantees_def using assms surjective_pairing by blast

lemma store_okI:
  assumes "store_ok f" "wf_files g" "clean_backups g" "\<And>q c. q \<in> records \<Longrightarrow> lookup g q = Some (File c) \<Longrightarrow> lookup f q = Some (File c)"
  shows "store_ok g"
proof -
  have "record_ok g"
    using assms(1) assms(4) [of last_boot_file]
    by (auto simp: store_ok_def record_ok_def records_def split: option.splits node.splits)
  moreover have "metas_ok g"
    using assms(4) by (intro metas_okI [OF store_okD(4) [OF assms(1)]]) (auto simp: records_def)
  ultimately show ?thesis
    using assms(2,3) by (simp add: store_ok_def)
qed

lemma keeps_records:
  assumes "keeps_paths records f g"
  shows "keeps_store f g"
proof
  assume s: "store_ok f"
  show "store_ok g"
    using keeps_pathsD [OF assms store_okD(1,2) [OF s]] by (intro store_okI [OF s]) simp_all
qed

lemma storing_keeping: "guarantees (keeps_paths records) m \<Longrightarrow> guarantees keeps_store m"
  unfolding guarantees_def using keeps_records by blast

lemma storing_unchanged: "guarantees unchanged m \<Longrightarrow> guarantees keeps_store m"
  by (simp add: guarantees_def unchanged_def)

lemma removal_keeps:
  assumes "shrinks UNIV f g" "keeps_wf f g"
  shows "keeps_store f g"
proof
  assume s: "store_ok f"
  have sub: "lookup g q = Some n \<Longrightarrow> lookup f q = Some n" for q n
    using assms(1) unfolding shrinks_def by (metis UNIV_I option.distinct(1))
  have "clean_backups g"
    using s sub unfolding store_ok_def clean_backups_def by blast
  with s sub assms(2) show "store_ok g"
    by (intro store_okI [OF s]) (auto simp: keeps_wf_def store_ok_def)
qed

lemma storing_removal: "guarantees (shrinks UNIV) m \<Longrightarrow> guarantees keeps_wf m \<Longrightarrow> guarantees keeps_store m"
  unfolding guarantees_def using removal_keeps by blast

lemma records_quiet: "quiet_paths records" "records \<subseteq> below nanok8s_var_dir"
  using target_not_in_zone [of "''last-boot.json''" state_dir "[]"]
  by (auto simp: quiet_paths_def records_def paths_defs write_zone_def temp_files_def prefix_def Cons_eq_append_conv append_eq_Cons_conv)

lemma storing_outside:
  assumes "guarantees (same_outside A) m" "guarantees keeps_wf m" "A \<inter> below nanok8s_var_dir = {}"
  shows "guarantees keeps_store m"
  using assms odd_below records_quiet(2) by (intro storing_keeping outside_keeps [OF assms(1,2)]) auto

section \<open>The steps of a boot\<close>

text \<open>A record keeps a name of one component when it goes through its encoding.\<close>

lemma no_slash_valid: "CHR ''/'' \<notin> set s \<Longrightarrow> CHR ''/'' \<notin> set (to_valid s)"
  using set_to_valid [of "CHR ''/''" s] by (auto simp: replacement_def)

lemma simple_stored: "simple_name (backup_Name lb) \<Longrightarrow> simple_name (backup_Name (stored_as lb))"
  using no_slash_valid [of "deployment_id lb"] no_slash_valid [of "boot_id lb"]
  by (auto simp: simple_name_def backup_Name_def stored_as_def append_eq_Cons_conv)

text \<open>A new backup: the record saved in it is the one it is named after.\<close>

lemma snapshot_store_ok:
  assumes s: "store_ok f" and n: "simple_name (backup_Name meta)"
    and same: "same_outside (create_zone (backups_dir @ [backup_Name meta @ ''.tmp'']) \<union> below (backup_path (backup_Name meta))) f g"
    and holds: "holds_snapshot h meta g (backup_path (backup_Name meta))"
    and g: "wf_files g" "clean_backups g"
  shows "store_ok g"
proof -
  let ?n = "backup_Name meta"
  have look: "lookup g q = lookup f q" if "q \<in> records" "q \<noteq> backup_path ?n @ [meta_file_name]" for q
    by (rule same_outsideD [OF same])
      (use that in \<open>auto simp: records_def create_zone_def paths_defs prefix_def suffix_def append_eq_Cons_conv\<close>)
  have "record_ok g"
    using s look [of last_boot_file] by (simp add: store_ok_def record_ok_def records_def paths_defs)
  moreover have "simple_name (backup_Name lb)"
    if k: "\<not> suffix ''.tmp'' k" "lookup g (backup_path k @ [meta_file_name]) = Some (File c)" "unmarshal_last_boot c = Inr lb" for k c lb
  proof (cases "k = ?n")
    case True
    with k(2,3) holds simple_stored [OF n] show ?thesis
      by (auto simp: holds_snapshot_def unmarshal_marshal)
  next
    case False
    then have "lookup f (backup_path k @ [meta_file_name]) = Some (File c)"
      using k(1,2) look [of "backup_path k @ [meta_file_name]"] by (auto simp: records_def)
    with k(1,3) store_okD(4) [OF s] show ?thesis
      unfolding metas_ok_def by blast
  qed
  ultimately show ?thesis
    using g by (auto simp: store_ok_def metas_ok_def)
qed

lemma storing_Create:
  assumes cp: "cp_contract sh" and n: "simple_name (backup_Name meta)"
  shows "guarantees keeps_store (backup_Create sh meta)"
proof (rule storing_runs)
  fix w r v
  assume run: "backup_Create sh meta w = (r, v)" and s: "store_ok (fs w)"
  have "guarantees (keeps_paths {}) (backup_Create sh meta)"
    by (rule keeping_Create [OF cp n]) simp
  note new = keeps_pathsD(1,2) [OF guaranteesD [OF this run] store_okD(1,2) [OF s]]
  from cp n run store_okD(1) [OF s] refl refl show "store_ok (fs v)"
  proof (cases rule: backup_Create_cases)
    case kept
    have "create_zone (backups_dir @ [backup_Name meta @ ''.tmp'']) \<inter> records = {}"
      by (auto simp: create_zone_def records_def paths_defs prefix_def suffix_def append_eq_Cons_conv)
    with kept(1) show ?thesis
      by (intro store_okI [OF s new]) (auto simp: same_outside_def)
  next
    case taken
    from snapshot_store_ok [OF s n taken(1,3) new] show ?thesis .
  qed
qed

lemma storing_WriteLastBoot:
  assumes "simple_name (backup_Name lb)"
  shows "guarantees keeps_store (WriteLastBoot lb)"
proof (rule storing_runs)
  fix w r v
  assume run: "WriteLastBoot lb w = (r, v)" and s: "store_ok (fs w)"
  have g: "guarantees (keeps_paths (records - {last_boot_file})) (WriteLastBoot lb)"
  proof (rule outside_keeps)
    show "guarantees (same_outside (write_zone state_dir \<union> below last_boot_file)) (WriteLastBoot lb)"
      unfolding WriteLastBoot_def last_boot_split by (rule outside_write_atomic) auto
    show "guarantees keeps_wf (WriteLastBoot lb)"
      unfolding WriteLastBoot_def by (rule wf_write_atomic)
    show "(write_zone state_dir \<union> below last_boot_file) \<inter> odd_backups = {}"
      using state_zone_apart by (auto simp: odd_backups_def paths_defs prefix_def)
    show "(write_zone state_dir \<union> below last_boot_file) \<inter> (records - {last_boot_file}) = {}"
      by (auto simp: records_def paths_defs write_zone_def temp_files_def prefix_def Cons_eq_append_conv append_eq_Cons_conv)
  qed
  note kept = keeps_pathsD [OF guaranteesD [OF g run] store_okD(1,2) [OF s]]
  have "last_boot_file \<noteq> backup_path k @ [meta_file_name]" for k
    by (simp add: paths_defs)
  then have "metas_ok (fs v)"
    using kept(3) by (intro metas_okI [OF store_okD(4) [OF s]]) (auto simp: records_def)
  moreover have "record_ok (fs v)"
    using WriteLastBoot_cases [OF run store_okD(1) [OF s]] s assms
    by (auto simp: store_ok_def record_ok_def unmarshal_marshal simple_stored)
  ultimately show "store_ok (fs v)"
    using kept(1,2) by (simp add: store_ok_def)
qed

lemma storing_WriteLastEvent: "guarantees keeps_store (WriteLastEvent s)"
  by (rule storing_keeping [OF keeping_event' [OF records_quiet(1)]])

lemma shrinks_prune_unknown: "guarantees (shrinks UNIV) (prune_unknown known ns gs)"
  by (induction ns arbitrary: gs) (auto intro!: guar simp: remove_backup_def Let_def)

lemma shrinks_unchanged: "guarantees unchanged m \<Longrightarrow> guarantees (shrinks A) m"
  by (simp add: guarantees_def unchanged_def shrink.rel_refl)

lemma shrinks_Prune: "guarantees (shrinks UNIV) (backup_Prune picks known)"
proof -
  have "guarantees (shrinks UNIV) (prune_group g)" for g
    unfolding prune_group_def remove_backup_def
    by (auto intro!: guar shrinks_unchanged [OF sort_newest_unchanged])
  then show ?thesis
    unfolding backup_Prune_def
    by (auto intro!: guar shrinks_prune_unknown shrinks_unchanged [OF backup_List_unchanged])
qed

lemma storing_Prune: "guarantees keeps_store (backup_Prune picks known)"
proof (rule storing_runs)
  fix w r v
  assume run: "backup_Prune picks known w = (r, v)" and s: "store_ok (fs w)"
  have "guarantees (keeps_paths {}) (backup_Prune picks known)"
    by (rule keeping_Prune) simp
  from keeps_pathsD(1) [OF guaranteesD [OF this run] store_okD(1,2) [OF s]] have "keeps_wf (fs w) (fs v)"
    by (simp add: keeps_wf_def)
  with removal_keeps [OF guaranteesD [OF shrinks_Prune run]] s show "store_ok (fs v)"
    by blast
qed

lemma storing_steps:
  assumes c: "programs_contract (programs env)"
  shows "guarantees keeps_store (bring_up env cfg node)" "guarantees keeps_store (bootFailed u p s e)"
    "guarantees keeps_store (announce had up prev self)" "guarantees keeps_store (notifyReady (programs env))"
    "guarantees keeps_store (tidy_up env cfg i cl)"
proof -
  note k = storing_keeping records_quiet
  show "guarantees keeps_store (bring_up env cfg node)" "guarantees keeps_store (bootFailed u p s e)"
    "guarantees keeps_store (announce had up prev self)" "guarantees keeps_store (notifyReady (programs env))"
    by (intro k(1) keeping_bring_up keeping_bootFailed keeping_announce keeping_steps(10) c k(2,3))+
  have "guarantees keeps_store (AllDeploymentIDs (programs env))" "guarantees keeps_store (EnsureAddons (programs env) d cfg l cl)" for d l
    by (intro k(1) keeping_steps(2,9) c k(3))+
  then show "guarantees keeps_store (tidy_up env cfg i cl)"
    unfolding tidy_up_def prune_old_def say_def
    by (auto intro!: storing.gu_rules storing_Prune split: sum.split)
qed

lemma storing_Restore: "cp_contract sh \<Longrightarrow> guarantees keeps_store (backup_Restore sh name)"
  by (rule storing_outside [OF outside_Restore wf_Restore])
    (auto simp: restore_zone_def zone_defs paths_defs prefix_def Cons_eq_append_conv append_eq_Cons_conv)

lemma storing_clear: "guarantees keeps_store clear_marker"
proof -
  have "guarantees (shrinks UNIV) (remove_one p)" for p
    unfolding remove_one_def by (rule shrink.gu_syscall) (auto simp: shrinks_def nothing_done_def)
  then have "guarantees keeps_store ClearRestoreMarker"
    unfolding ClearRestoreMarker_def by (intro storing_removal) (auto intro!: guar simp: paths_defs)
  then show ?thesis
    unfolding clear_marker_def say_def by (intro storing.gu_rules)
qed

text \<open>Triples whose predicates are about the files and that keep the invariant wherever the run ends.\<close>

abbreviation keeps_ok :: "(files \<Rightarrow> bool) \<Rightarrow> 'a io \<Rightarrow> ('a \<Rightarrow> files \<Rightarrow> bool) \<Rightarrow> bool" where
  "keeps_ok P m Q \<equiv> triple (\<lambda>w. P (fs w)) m (\<lambda>x w. Q x (fs w)) (\<lambda>w. store_ok (fs w))"

lemma ok_step: "guarantees keeps_store m \<Longrightarrow> keeps_ok store_ok m (\<lambda>_. store_ok)"
  by (erule triple_guarantees) blast

text \<open>A step that keeps the invariant, a step that only reads, and facts about values.\<close>

lemma ok_with: "keeps_ok P m (\<lambda>_. store_ok) \<Longrightarrow> keeps_ok (\<lambda>f. P f \<and> V) m (\<lambda>_ f. store_ok f \<and> V)"
  unfolding triple_def by (fastforce split: res.splits)

lemma ok_reading:
  assumes "guarantees unchanged m" "\<And>f. P f \<Longrightarrow> store_ok f"
    and "\<And>w x v. P (fs w) \<Longrightarrow> m w = (Ok x, v) \<Longrightarrow> Q x (fs w)"
  shows "keeps_ok P m Q"
proof (rule tripleI)
  fix w x v
  assume "P (fs w)" "m w = (Ok x, v)"
  with assms(3) guaranteesD [OF assms(1)] show "Q x (fs v)"
    by (fastforce simp: unchanged_def)
next
  fix w r v
  assume "P (fs w)" "m w = (r, v)"
  with assms(2) guaranteesD [OF assms(1)] show "store_ok (fs v)"
    by (fastforce simp: unchanged_def)
qed

lemma ok_say: "keeps_ok store_ok (say s) (\<lambda>_. store_ok)" "keeps_ok P (say s) (\<lambda>_. P)"
  unfolding triple_def by (auto simp: say_def logf_def)

lemma RestoreRequested_unchanged: "guarantees unchanged RestoreRequested"
  unfolding RestoreRequested_def by (intro guar) (auto intro!: guar split: sum.split)

lemma ReadLastBoot_unchanged: "guarantees unchanged ReadLastBoot"
  unfolding ReadLastBoot_def by (auto intro!: guar split: sum.split)

lemma ReadMeta_unchanged: "guarantees unchanged (ReadMeta n)"
  unfolding ReadMeta_def by (auto intro!: guar split: sum.split)

lemma ok_event: "keeps_ok store_ok (ignore (WriteLastEvent s)) (\<lambda>_. store_ok)"
  by (intro ok_step storing.gu_rules storing_WriteLastEvent)

lemma ok_latest:
  "keeps_ok store_ok (LatestForDeployment dep)
     (\<lambda>n f. store_ok f \<and> (n = '''' \<or> simple_name n \<and> \<not> suffix ''.tmp'' n))"
proof (rule ok_reading [OF Latest_unchanged])
  fix w n v
  assume ok: "store_ok (fs w)" and run: "LatestForDeployment dep w = (Ok n, v)"
  from LatestForDeployment_Ok [OF run store_okD(1,2) [OF ok]] store_okD(2) [OF ok] ok
  show "store_ok (fs w) \<and> (n = '''' \<or> simple_name n \<and> \<not> suffix ''.tmp'' n)"
    by (auto simp: newest_backup_def is_backup_def is_dir_def clean_backups_def)
qed

lemma ok_meta:
  assumes "simple_name n" "\<not> suffix ''.tmp'' n"
  shows "keeps_ok store_ok (ReadMeta n) (\<lambda>m f. store_ok f \<and> simple_name (backup_Name m))"
proof (rule ok_reading [OF ReadMeta_unchanged])
  fix w m v
  assume ok: "store_ok (fs w)" and run: "ReadMeta n w = (Ok m, v)"
  from ReadMeta_Ok [OF run assms(1)] store_okD(4) [OF ok] ok assms(2) show "store_ok (fs w) \<and> simple_name (backup_Name m)"
    unfolding metas_ok_def by blast
qed

lemma ok_restored:
  assumes "cp_contract sh" "simple_name n" "\<not> suffix ''.tmp'' n"
  shows "keeps_ok store_ok (after (backup_Restore sh n) (seq (ReadMeta n) (\<lambda>meta.
    after (WriteLastBoot meta) (ignore (WriteLastEvent s))))) (\<lambda>_. store_ok)"
proof -
  have "keeps_ok (\<lambda>f. store_ok f \<and> simple_name (backup_Name m)) (WriteLastBoot m) (\<lambda>_. store_ok)" for m
    by (rule triple_when) (rule ok_step [OF storing_WriteLastBoot])
  then show ?thesis
    by (intro triple_after [OF ok_step [OF storing_Restore [OF assms(1)]]] triple_seq [OF ok_meta [OF assms(2,3)]]
        triple_after [OF _ ok_event])
qed

lemma restore_newest_safe:
  assumes cp: "cp_contract sh"
  shows "keeps_ok store_ok (restore_newest sh dep) (\<lambda>_. store_ok)"
proof -
  have noop: "keeps_ok store_ok (after (say s) (ignore (WriteLastEvent t))) (\<lambda>_. store_ok)" for s t
    by (rule triple_after [OF ok_say(1) ok_event])
  have "keeps_ok store_ok (if n = '''' then after (say s) (ignore (WriteLastEvent t))
      else after (say u) (after (backup_Restore sh n) (seq (ReadMeta n) (\<lambda>meta.
         after (WriteLastBoot meta) (ignore (WriteLastEvent x)))))) (\<lambda>_. store_ok)"
    if "n = '''' \<or> simple_name n \<and> \<not> suffix ''.tmp'' n" for n s t u x
  proof (cases "n = ''''")
    case True
    show ?thesis
      unfolding if_P [OF True] by (rule noop)
  next
    case False
    with that have "simple_name n" "\<not> suffix ''.tmp'' n"
      by blast+
    then show ?thesis
      unfolding if_not_P [OF False] by (rule triple_after [OF ok_say(1) ok_restored [OF cp]])
  qed
  note step = triple_when [OF this]
  show ?thesis
    unfolding restore_newest_def by (rule triple_if [OF noop triple_seq [OF ok_latest step]])
qed

lemma maybeRestore_safe:
  assumes "cp_contract sh"
  shows "keeps_ok store_ok (maybeRestore sh dep) (\<lambda>_. store_ok)"
  unfolding maybeRestore_def
  by (intro triple_seq [OF ok_reading [OF RestoreRequested_unchanged, where Q = "\<lambda>_. store_ok"]] triple_if triple_deferred
      restore_newest_safe [OF assms] ok_step [OF storing_clear] triple_return) simp_all

section \<open>A whole boot\<close>

text \<open>The ids of deployments and the kernel's boot id are single path components; the program rpm-ostree
  only reports.\<close>

definition plain_ids :: "shell \<Rightarrow> bool" where
  "plain_ids sh \<longleftrightarrow> (\<forall>h f ds. unmarshal_status (stdout (fst (sh h status_call f))) = Inr ds \<longrightarrow>
     (\<forall>d \<in> set ds. CHR ''/'' \<notin> set (dep_id d)))"

definition boot_contract :: "shell \<Rightarrow> bool" where
  "boot_contract sh \<longleftrightarrow> programs_contract sh \<and> status_reads_only sh \<and> plain_ids sh"

definition plain_boot_id :: "files \<Rightarrow> bool" where
  "plain_boot_id f \<longleftrightarrow> (case lookup f boot_id_file of Some (File c) \<Rightarrow> CHR ''/'' \<notin> set c | _ \<Rightarrow> True)"

lemma boot_contractD:
  "boot_contract sh \<Longrightarrow> programs_contract sh" "boot_contract sh \<Longrightarrow> status_reads_only sh" "boot_contract sh \<Longrightarrow> plain_ids sh"
  "boot_contract sh \<Longrightarrow> cp_contract sh"
  by (simp_all add: boot_contract_def programs_contract_def)

lemma BootedDeploymentID_plain:
  assumes "plain_ids sh" "BootedDeploymentID sh w = (Ok i, v)"
  shows "CHR ''/'' \<notin> set i"
proof -
  from assms(2) obtain ok u where "IsOSTree w = (Ok ok, u)"
    and rest: "(if \<not> ok then return ''''
       else seq (allDeployments sh) (\<lambda>deps. case first_booted deps of
           Some i \<Rightarrow> return i
         | None \<Rightarrow> raise (Text ''no booted deployment in rpm-ostree status output''))) u = (Ok i, v)"
    by (auto simp: BootedDeploymentID_def run_simps)
  show ?thesis
  proof (cases ok)
    case False
    with rest show ?thesis
      by (simp add: run_simps)
  next
    case True
    with rest obtain ds x where d: "allDeployments sh u = (Ok ds, x)" "first_booted ds = Some i"
      by (auto simp: run_simps split: option.splits)
    from allDeployments_Ok [OF d(1)] d(2) assms(1) show ?thesis
      unfolding plain_ids_def first_booted_Some by (metis fst_conv in_set_conv_decomp)
  qed
qed

lemma BootID_plain:
  assumes "BootID w = (Ok b, v)" "plain_boot_id (fs w)"
  shows "CHR ''/'' \<notin> set b"
proof -
  from assms(1) obtain c u where c: "read_file boot_id_file w = (Ok c, u)" "b = trim_space c"
    by (auto simp: BootID_def run_simps)
  from read_file_Ok [OF c(1)] assms(2) have "CHR ''/'' \<notin> set c"
    by (simp add: plain_boot_id_def)
  with c(2) set_trim show ?thesis
    by blast
qed

lemma plain_name: "CHR ''/'' \<notin> set d \<Longrightarrow> CHR ''/'' \<notin> set b \<Longrightarrow> simple_name (d @ CHR ''_'' # b)"
  by (auto simp: simple_name_def append_eq_Cons_conv)

text \<open>The ids are known: the backup of this boot will have a name of one component.\<close>

abbreviation named :: "string \<Rightarrow> string \<Rightarrow> files \<Rightarrow> bool" where
  "named d b f \<equiv> store_ok f \<and> simple_name (d @ CHR ''_'' # b)"

lemma ok_deployment:
  assumes "plain_ids sh" "status_reads_only sh"
  shows "keeps_ok (\<lambda>f. store_ok f \<and> plain_boot_id f)
    (if use then wrapped s (BootedDeploymentID sh) else after (say t) (return ''''))
    (\<lambda>d f. (store_ok f \<and> plain_boot_id f) \<and> CHR ''/'' \<notin> set d)"
proof (intro triple_if triple_wrapped triple_after [OF ok_say(2)] triple_return)
  show "keeps_ok (\<lambda>f. store_ok f \<and> plain_boot_id f) (BootedDeploymentID sh)
      (\<lambda>d f. (store_ok f \<and> plain_boot_id f) \<and> CHR ''/'' \<notin> set d)"
    by (rule ok_reading [OF status_unchanged [OF assms(2)]]) (use BootedDeploymentID_plain [OF assms(1)] in auto)
qed simp

lemma ok_boot_id: "keeps_ok (\<lambda>f. (store_ok f \<and> plain_boot_id f) \<and> CHR ''/'' \<notin> set d) BootID (\<lambda>b. named d b)"
proof (rule ok_reading)
  show "guarantees unchanged BootID"
    unfolding BootID_def by (intro guar)
qed (use BootID_plain plain_name in auto)

lemma ok_restore:
  assumes "cp_contract sh"
  shows "keeps_ok (named d b) (if use then wrapped s (maybeRestore sh dep) else return ()) (\<lambda>_. named d b)"
proof (rule ok_with)
  show "keeps_ok store_ok (if use then wrapped s (maybeRestore sh dep) else return ()) (\<lambda>_. store_ok)"
    by (intro triple_if triple_wrapped maybeRestore_safe [OF assms] triple_return)
qed

lemma ok_read_last:
  "keeps_ok (named d b) ReadLastBoot (\<lambda>ph f. named d b f \<and> (snd ph \<longrightarrow> simple_name (backup_Name (fst ph))))"
proof (rule ok_reading [OF ReadLastBoot_unchanged])
  fix w ph v
  assume "named d b (fs w)" "ReadLastBoot w = (Ok ph, v)"
  then show "named d b (fs w) \<and> (snd ph \<longrightarrow> simple_name (backup_Name (fst ph)))"
    using ReadLastBoot_Ok [of w "fst ph" "snd ph" v] store_okD(3) [of "fs w"] by (auto simp: record_ok_def)
qed simp

lemma storing_snapshot:
  assumes "cp_contract sh" "had \<longrightarrow> simple_name (backup_Name prev)"
  shows "guarantees keeps_store (snapshot_previous sh use had prev boot)"
  unfolding snapshot_previous_def say_def using assms by (auto intro!: storing.gu_rules storing_Create)

lemma prepare_boot_safe:
  assumes "boot_contract (programs env)"
  shows "keeps_ok (\<lambda>f. store_ok f \<and> plain_boot_id f) (prepare_boot env self)
    (\<lambda>i f. store_ok f \<and> simple_name (backup_Name (this_boot i self)))"
proof -
  note c = boot_contractD [OF assms]
  have ostree: "keeps_ok (\<lambda>f. store_ok f \<and> plain_boot_id f) (wrapped s IsOSTree) (\<lambda>_ f. store_ok f \<and> plain_boot_id f)" for s
    by (intro triple_wrapped ok_reading [OF IsOSTree_unchanged]) simp_all
  have name: "backup_Name (this_boot \<lparr>useBackups = u, currentDeployment = d, currentBoot = b, prevBoot = p, hadPrev = h\<rparr> self)
      = d @ CHR ''_'' # b" for u d b p h
    by (simp add: this_boot_def backup_Name_def)
  show ?thesis
    unfolding prepare_boot_def Let_def case_prod_unfold
    by (intro triple_seq [OF ostree] triple_seq [OF ok_deployment [OF c(3,2)]] triple_seq [OF ok_boot_id]
        triple_after [OF ok_restore [OF c(4)]] triple_seq [OF ok_read_last] triple_when
        triple_after [OF ok_with [OF ok_step [OF storing_snapshot [OF c(4)]]]]
        triple_after [OF ok_with [OF ok_step [OF storing_steps(3) [OF c(1)]]]] triple_return) (simp_all add: name)
qed

lemma Boot_safe:
  assumes "boot_contract (programs env)"
  shows "keeps_ok (\<lambda>f. store_ok f \<and> plain_boot_id f) (Boot env cfg node self) (\<lambda>_. store_ok)"
proof -
  note c = boot_contractD(1) [OF assms]
  have "keeps_ok store_ok (seq (on_err (bring_up env cfg node) (bootFailed u p self)) (\<lambda>cl.
      after (tidy_up env cfg i cl) (record_boot env i self))) (\<lambda>_. store_ok)"
    if "simple_name (backup_Name (this_boot i self))" for i u p
    unfolding record_boot_def say_def
    by (intro ok_step storing.gu_rules storing_steps [OF c] storing_WriteLastBoot [OF that] storing_WriteLastEvent)
  then show ?thesis
    unfolding Boot_def by (intro triple_seq [OF prepare_boot_safe [OF assms]] triple_when)
qed

section \<open>Reset and bootstrap\<close>

lemma storing_confined:
  assumes "confined sh P (- below nanok8s_var_dir)" "P c"
  shows "guarantees keeps_store (extern sh c)"
  by (rule storing_outside [OF outside_confined [OF assms] wf_confined [OF assms]]) simp

lemma storing_reset:
  assumes "confined sh (runs_one_of reset_programs) (- below nanok8s_var_dir)"
  shows "guarantees keeps_store (reset_cmd sh confirm)"
proof -
  have e: "guarantees keeps_store (extern sh c)" if "runs_one_of reset_programs c" for c
    by (rule storing_confined [OF assms that])
  have n: "guarantees keeps_store (extern sh c)" if "runs_one_of network_programs c" for c
    by (rule e) (rule network_runs [OF that])
  have "guarantees keeps_store (remove_tree t)" if "t \<in> set managed_dirs" for t
  proof (rule storing_removal)
    show "guarantees (shrinks UNIV) (remove_tree t)"
      unfolding remove_tree_def say_reset_def by (intro guar)
    have "t \<noteq> []"
      using that managed_dirs_simps(1) by auto
    then show "guarantees keeps_wf (remove_tree t)"
      by (rule remove_tree_guarantees(1))
  qed
  then show ?thesis
    unfolding reset_cmd_def runReset_def
    by (auto intro!: storing.gu_rules storing.gu_first_steps [OF e] storing.gu_network_steps [OF n] storing.gu_raise)
qed

lemma storing_bootstrap:
  assumes "programs_contract (programs env)"
  shows "guarantees keeps_store (bootstrap_cmd env yaml p force)"
proof -
  have "guarantees keeps_store state_Exists" "guarantees keeps_store (Load yaml p)"
    by (intro storing_unchanged state_Exists_unchanged Load_unchanged)+
  moreover have "guarantees keeps_store (defaultNodeName (programs env))"
    unfolding defaultNodeName_def
    by (intro storing.gu_rules storing_keeping keeping_lib_call [OF assms _ records_quiet(2)])
      (simp add: not_cp_def hostname_call_def cmd_def)
  moreover have "guarantees keeps_store (Ensure (programs env) d cfg DefaultLayout node)" for d cfg node
    by (rule storing_keeping [OF keeping_Ensure [OF assms records_quiet(2)]])
  ultimately show ?thesis
    unfolding bootstrap_cmd_def initialise_node_def by (auto intro!: storing.gu_rules storing_WriteLastEvent)
qed

section \<open>The node\<close>

text \<open>What can happen to a node.  The outcome of a run is arbitrary: it may have succeeded, failed or been
  cut short by a stop of the machine.  Between runs everything that is not below /var/lib/nanok8s may
  change, which is what the cluster, the host and its updates do, and greenboot may place the marker.\<close>

inductive node_step :: "files \<Rightarrow> files \<Rightarrow> bool" where
  boot: "\<lbrakk>boot_contract (programs env); plain_boot_id (fs w); Boot env cfg node self w = (r, v)\<rbrakk> \<Longrightarrow>
    node_step (fs w) (fs v)"
| bootstrap: "\<lbrakk>programs_contract (programs env); bootstrap_cmd env yaml p force w = (r, v)\<rbrakk> \<Longrightarrow> node_step (fs w) (fs v)"
| reset: "\<lbrakk>confined sh (runs_one_of reset_programs) (- below nanok8s_var_dir); reset_cmd sh confirm w = (r, v)\<rbrakk> \<Longrightarrow>
    node_step (fs w) (fs v)"
| outside: "\<lbrakk>same_outside (- below nanok8s_var_dir) f g; keeps_wf f g\<rbrakk> \<Longrightarrow> node_step f g"
| marker: "\<lbrakk>lookup f backups_dir = Some Dir; lookup f restore_marker \<noteq> Some Dir\<rbrakk> \<Longrightarrow>
    node_step f (set_node restore_marker (File c) t f)"

inductive_cases node_stepE: "node_step f g"

text \<open>A node without nanok8s.\<close>

definition fresh_node :: "files \<Rightarrow> bool" where
  "fresh_node f \<longleftrightarrow> wf_files f \<and> lookup f nanok8s_var_dir = None"

abbreviation node_steps :: "files \<Rightarrow> files \<Rightarrow> bool" where
  "node_steps \<equiv> node_step\<^sup>*\<^sup>*"

lemma fresh_store_ok:
  assumes "fresh_node f"
  shows "store_ok f"
proof -
  have none: "lookup f q = None" if "prefix nanok8s_var_dir q" for q
    using assms wf_below_absent [of f nanok8s_var_dir] that by (auto simp: fresh_node_def)
  have "clean_backups f" "metas_ok f" "record_ok f"
    using none unfolding clean_backups_def metas_ok_def record_ok_def by (auto simp: paths_defs)
  with assms show ?thesis
    by (simp add: store_ok_def fresh_node_def)
qed

lemma outside_store_ok: "same_outside (- below nanok8s_var_dir) f g \<Longrightarrow> keeps_wf f g \<Longrightarrow> keeps_store f g"
  using odd_below records_quiet(2)
  by (intro keeps_records same_outside_keeps [where A = "- below nanok8s_var_dir"]) (auto simp: keeps_wf_def)

lemma marker_store_ok:
  assumes "lookup f backups_dir = Some Dir" "lookup f restore_marker \<noteq> Some Dir"
  shows "keeps_store f (set_node restore_marker (File c) t f)"
proof (rule keeps_records)
  have wf: "wf_files (set_node restore_marker (File c) t f)" if "wf_files f"
    using wf_set_node [OF that, of restore_marker "File c" t] assms by (simp add: is_dir_def paths_defs)
  show "keeps_paths records f (set_node restore_marker (File c) t f)"
    by (rule same_outside_keeps [where A = "{restore_marker}"])
      (use wf in \<open>auto simp: same_outside_def records_def odd_backups_def paths_defs simple_name_def\<close>)
qed

lemma step_store_ok: "node_step f g \<Longrightarrow> store_ok f \<Longrightarrow> store_ok g"
proof (induction rule: node_step.induct)
  case (boot env w cfg node self r v)
  then show ?case
    using triple_either [OF Boot_safe [OF boot.hyps(1)] _ boot.hyps(3)] by blast
next
  case (bootstrap env yaml p force w r v)
  then show ?case
    using guaranteesD [OF storing_bootstrap [OF bootstrap.hyps(1)] bootstrap.hyps(2)] by blast
next
  case (reset sh confirm w r v)
  then show ?case
    using guaranteesD [OF storing_reset [OF reset.hyps(1)] reset.hyps(2)] by blast
next
  case (outside f g)
  then show ?case
    using outside_store_ok by blast
next
  case (marker f c t)
  then show ?case
    using marker_store_ok by blast
qed

lemma reachable_store_ok: "node_steps f g \<Longrightarrow> store_ok f \<Longrightarrow> store_ok g"
  by (induction rule: rtranclp_induct) (auto dest: step_store_ok)

section \<open>Properties\<close>


lemma sample_boot_contract: "boot_contract (programs sample_env)"
proof -
  have "unmarshal_status ''c'' = Inl (Text ''invalid JSON'')"
    by code_simp
  then have "plain_ids (sample_shell ''c'')"
    by (simp add: plain_ids_def sample_shell_def status_call_def)
  then show ?thesis
    by (simp add: boot_contract_def sample_env_def sample_contract status_reads_only_def sample_shell_def status_call_def)
qed

lemma sample_steps:
  "\<exists>v. node_steps config_files (fs v) \<and> v = snd (bootstrap_cmd sample_env fixed_decoder config_file False
     (snd (Boot sample_env NewDefault ''node'' ''v1'' (quiet config_files))))"
proof (intro exI conjI)
  let ?b = "Boot sample_env NewDefault ''node'' ''v1'' (quiet config_files)"
  have "plain_boot_id (fs (quiet config_files))"
    by code_simp
  from node_step.boot [OF sample_boot_contract this prod.collapse [symmetric]]
  have "node_step config_files (fs (snd ?b))"
    by simp
  moreover have "node_step (fs (snd ?b)) (fs (snd (bootstrap_cmd sample_env fixed_decoder config_file False (snd ?b))))"
    using boot_contractD(1) [OF sample_boot_contract] by (rule node_step.bootstrap) (rule prod.collapse [symmetric])
  ultimately show "node_steps config_files (fs (snd (bootstrap_cmd sample_env fixed_decoder config_file False (snd ?b))))"
    by (auto intro: rtranclp.intros)
qed simp

lemma config_files_fresh: "fresh_node config_files"
  unfolding fresh_node_def by code_simp




end
