(* ===== verification/Program.thy ===== *)
theory Program
imports Cli
begin

text \<open>
  cmd/nanok8s/main.go, root.go and the constructors of the commands: the program as a whole, from its
  arguments to its exit status.  The tree of commands is a value, as the code builds it for cobra.  How cobra
  reads the arguments with it is the parameter \<open>parse\<close>: it gives an error, asks for a help text to be
  printed, or names a command of the tree by the words of its path, with the flags that are set.
\<close>

section \<open>The command tree\<close>

text \<open>The variables that flags set: the configPath of globalOpts, force of bootstrap and confirm of reset.\<close>

record options =
  configPath :: path
  force :: bool
  confirm :: bool

text \<open>A flag: the variable it is bound to, its name, its default and its help text.\<close>

datatype flag =
  BoolVar "bool \<Rightarrow> options \<Rightarrow> options" string bool string
| StringVar "path \<Rightarrow> options \<Rightarrow> options" string path string

record command_info =
  Use :: string
  Aliases :: "string list"
  Short :: string
  Long :: string
  Hidden :: bool
  NoArgs :: bool
  SilenceUsage :: bool
  SilenceErrors :: bool
  PersistentFlags :: "flag list"
  Flags :: "flag list"

datatype cobra_command = Command (info: command_info) (RunE: "(options \<Rightarrow> unit io) option") (children: "cobra_command list")

text \<open>A cobra.Command with a name and a line of help only.\<close>

definition plain_command :: "string \<Rightarrow> string \<Rightarrow> command_info" where
  "plain_command name help = \<lparr>Use = name, Aliases = [], Short = help, Long = '''', Hidden = False, NoArgs = False,
     SilenceUsage = False, SilenceErrors = False, PersistentFlags = [], Flags = []\<rparr>"

definition newBootstrapCmd :: "env \<Rightarrow> decoder \<Rightarrow> cobra_command" where
  "newBootstrapCmd env yaml = Command
     ((plain_command ''bootstrap'' ''Initialise a fresh node (run once per install)'')
        \<lparr>Aliases := [''init''],
         Long := ''Writes PKI, kubeconfigs, static pod manifests, and kubelet config. '' @
           ''After this completes, enable nanok8s.service so subsequent boots '' @
           ''reconcile automatically. Refuses to run if nanok8s state already '' @
           ''exists on this node; pass --force to overwrite.'',
         NoArgs := True,
         Flags := [BoolVar (\<lambda>b opts. opts\<lparr>force := b\<rparr>) ''force'' False ''overwrite existing nanok8s state'']\<rparr>)
     (Some (\<lambda>opts. bootstrap_cmd env yaml (configPath opts) (force opts))) []"

definition newResetCmd :: "env \<Rightarrow> cobra_command" where
  "newResetCmd env = Command
     ((plain_command ''reset'' ''Tear down all nanok8s-managed state (matches `kubeadm reset`)'')
        \<lparr>Long := ''Stops kubelet, removes CRI containers, wipes /etc/kubernetes, '' @
           ''/var/lib/etcd, /var/lib/kubelet, /var/lib/nanok8s, deletes CNI '' @
           ''network interfaces, and flushes iptables and ipvs rules. '' @
           ''Intended for test beds or when re-bootstrapping from scratch.'',
         NoArgs := True,
         Flags := [BoolVar (\<lambda>b opts. opts\<lparr>confirm := b\<rparr>) ''yes'' False ''confirm the destructive operation'']\<rparr>)
     (Some (\<lambda>opts. reset_cmd (programs env) (confirm opts))) []"

definition newBootCmd :: "env \<Rightarrow> decoder \<Rightarrow> cobra_command" where
  "newBootCmd env yaml = Command
     ((plain_command ''boot'' ''Internal: run the boot lifecycle (invoked by nanok8s.service)'')\<lparr>Hidden := True, NoArgs := True\<rparr>)
     (Some (\<lambda>opts. boot_cmd env yaml (configPath opts))) []"

definition newConfigPrintDefaultsCmd :: "encoder \<Rightarrow> cobra_command" where
  "newConfigPrintDefaultsCmd marshal = Command
     ((plain_command ''print-defaults'' ''Print a NanoK8sConfig with all defaults applied'')\<lparr>NoArgs := True\<rparr>)
     (Some (\<lambda>opts. print_defaults_cmd marshal)) []"

definition newConfigValidateCmd :: "decoder \<Rightarrow> cobra_command" where
  "newConfigValidateCmd yaml = Command
     ((plain_command ''validate'' ''Load the config file, apply defaults, and validate it'')\<lparr>NoArgs := True\<rparr>)
     (Some (\<lambda>opts. validate_cmd yaml (configPath opts))) []"

definition newConfigCmd :: "decoder \<Rightarrow> encoder \<Rightarrow> cobra_command" where
  "newConfigCmd yaml marshal = Command (plain_command ''config'' ''Inspect and validate NanoK8sConfig'') None
     [newConfigPrintDefaultsCmd marshal, newConfigValidateCmd yaml]"

definition newVersionCmd :: cobra_command where
  "newVersionCmd = Command ((plain_command ''version'' ''Print build and target versions'')\<lparr>NoArgs := True\<rparr>)
     (Some (\<lambda>opts. version_cmd)) []"

definition newRootCmd :: "env \<Rightarrow> decoder \<Rightarrow> encoder \<Rightarrow> cobra_command" where
  "newRootCmd env yaml marshal = Command
     ((plain_command ''nanok8s'' ''Minimal single-node Kubernetes for bootc-style edge deployments'')
        \<lparr>SilenceUsage := True, SilenceErrors := True,
         PersistentFlags := [StringVar (\<lambda>p opts. opts\<lparr>configPath := p\<rparr>) ''config'' config_file ''path to NanoK8sConfig YAML'']\<rparr>)
     None
     [newBootstrapCmd env yaml, newResetCmd env, newBootCmd env yaml, newConfigCmd yaml marshal, newVersionCmd]"

lemmas command_defs = newRootCmd_def newBootstrapCmd_def newResetCmd_def newBootCmd_def newConfigCmd_def
  newConfigPrintDefaultsCmd_def newConfigValidateCmd_def newVersionCmd_def plain_command_def

section \<open>Execution\<close>

datatype flag_value = Bool_value bool | Path_value path

datatype invocation = Help string | Run "string list" "(string \<times> flag_value) list"

type_synonym parser = "cobra_command \<Rightarrow> string list \<Rightarrow> err + invocation"

text \<open>The command that the words of a path name, by its use or an alias, with the flags it has or inherits.\<close>

fun find_command :: "flag list \<Rightarrow> cobra_command \<Rightarrow> string list \<Rightarrow> (cobra_command \<times> flag list) option" where
  "find_command fls c [] = Some (c, fls @ PersistentFlags (info c) @ Flags (info c))"
| "find_command fls c (n # ns) =
     (case find (\<lambda>d. n = Use (info d) \<or> n \<in> set (Aliases (info d))) (children c) of
        None \<Rightarrow> None
      | Some d \<Rightarrow> find_command (fls @ PersistentFlags (info c)) d ns)"

text \<open>The declaration of a flag stores its default, and a flag that is given stores its value.\<close>

fun declare_flag :: "flag \<Rightarrow> options \<Rightarrow> options" where
  "declare_flag (BoolVar bind _ dflt _) opts = bind dflt opts"
| "declare_flag (StringVar bind _ dflt _) opts = bind dflt opts"

fun set_flag :: "string \<times> flag_value \<Rightarrow> flag \<Rightarrow> options \<Rightarrow> options" where
  "set_flag (n, Bool_value b) (BoolVar bind m _ _) opts = (if n = m then bind b opts else opts)"
| "set_flag (n, Path_value p) (StringVar bind m _ _) opts = (if n = m then bind p opts else opts)"
| "set_flag _ _ opts = opts"

definition read_flags :: "flag list \<Rightarrow> (string \<times> flag_value) list \<Rightarrow> options" where
  "read_flags fls settings =
     fold (\<lambda>s. fold (set_flag s) fls) settings
       (fold declare_flag fls \<lparr>configPath = [], force = False, confirm = False\<rparr>)"

definition execute :: "cobra_command \<Rightarrow> parser \<Rightarrow> string list \<Rightarrow> unit io" where
  "execute root parse args = (case parse root args of
       Inl e \<Rightarrow> raise e
     | Inr (Help usage) \<Rightarrow> logf usage
     | Inr (Run names settings) \<Rightarrow> (case find_command [] root names of
           Some (Command _ (Some run) _, fls) \<Rightarrow> run (read_flags fls settings)
         | _ \<Rightarrow> raise (Text ''unknown command'')))"

text \<open>main: its value is the exit status.\<close>

definition main_program :: "env \<Rightarrow> decoder \<Rightarrow> encoder \<Rightarrow> parser \<Rightarrow> string list \<Rightarrow> nat io" where
  "main_program env yaml marshal parse args =
     seq (attempt (execute (newRootCmd env yaml marshal) parse args)) (\<lambda>r. case r of
         Inl e \<Rightarrow> after (logf (''error: '' @ err_text e)) (return 1)
       | Inr _ \<Rightarrow> return 0)"

section \<open>Facts\<close>

text \<open>The invocations that may change something: boot, a bootstrap by either of its names, and a reset with --yes.\<close>

fun may_change :: "invocation \<Rightarrow> bool" where
  "may_change (Help _) = False"
| "may_change (Run names settings) \<longleftrightarrow> names \<in> {[''bootstrap''], [''init''], [''boot'']} \<or>
     names = [''reset''] \<and> (''yes'', Bool_value True) \<in> set settings"

lemma idle_refl: "idle w w"
  by (simp add: idle_def)

lemma idle_logf: "logf s w = (r, v) \<Longrightarrow> idle w v"
  by (auto simp: logf_def idle_def)

lemma idle_raise: "raise e w = (r, v) \<Longrightarrow> idle w v"
  by (auto simp: raise_def idle_def)

lemma idle_validate: "validate_cmd yaml p w = (r, v) \<Longrightarrow> idle w v"
  unfolding validate_cmd_def
  by (elim seq_cases) (blast intro: idle_Load idle_logf idle_trans)+

lemma idle_print_defaults: "print_defaults_cmd marshal w = (r, v) \<Longrightarrow> idle w v"
  by (auto simp: print_defaults_cmd_def split: sum.splits dest: idle_logf idle_raise)

lemma idle_reset_unconfirmed: "reset_cmd sh False w = (r, v) \<Longrightarrow> idle w v"
  by (auto simp: reset_cmd_def dest: idle_raise)

text \<open>The commands a path can name, with their flags.\<close>

lemma find_command_cases:
  assumes "find_command [] (newRootCmd env yaml marshal) names = Some (Command i (Some run) cs, fls)"
  obtains "names \<in> {[''bootstrap''], [''init'']}" "run = (\<lambda>opts. bootstrap_cmd env yaml (configPath opts) (force opts))"
  | "names = [''reset'']" "run = (\<lambda>opts. reset_cmd (programs env) (confirm opts))"
    "fls = PersistentFlags (info (newRootCmd env yaml marshal)) @ Flags (info (newResetCmd env))"
  | "names = [''boot'']" "run = (\<lambda>opts. boot_cmd env yaml (configPath opts))"
  | "names = [''config'', ''print-defaults'']" "run = (\<lambda>opts. print_defaults_cmd marshal)"
  | "names = [''config'', ''validate'']" "run = (\<lambda>opts. validate_cmd yaml (configPath opts))"
  | "names = [''version'']" "run = (\<lambda>opts. version_cmd)"
proof (cases names)
  case Nil
  with assms show ?thesis
    by (simp add: command_defs)
next
  case (Cons n ns)
  show ?thesis
  proof (cases ns)
    case Nil
    with assms Cons that show ?thesis
      by (auto simp: command_defs split: if_splits)
  next
    case (Cons m ms)
    with assms \<open>names = n # ns\<close> that show ?thesis
      by (cases ms) (auto simp: command_defs split: if_splits)
  qed
qed

lemma reset_flags:
  assumes "(''yes'', Bool_value True) \<notin> set settings"
  shows "\<not> confirm (read_flags (PersistentFlags (info (newRootCmd env yaml marshal)) @ Flags (info (newResetCmd env))) settings)"
proof -
  have "\<not> confirm (fold (\<lambda>s. fold (set_flag s) fls) settings opts)"
    if "fls = [StringVar (\<lambda>p opts. opts\<lparr>configPath := p\<rparr>) ''config'' d h, BoolVar (\<lambda>b opts. opts\<lparr>confirm := b\<rparr>) ''yes'' e g]"
      "\<not> confirm opts" for fls d h e g opts
    using assms that(2)
  proof (induction settings arbitrary: opts)
    case (Cons s settings)
    have "\<not> confirm (fold (set_flag s) fls opts)"
      using Cons.prems that(1) by (cases s; cases "snd s") auto
    with Cons show ?case
      by simp
  qed simp
  then show ?thesis
    by (simp add: read_flags_def command_defs)
qed

lemma idle_execute:
  assumes "execute (newRootCmd env yaml marshal) parse args w = (r, v)"
    and "\<And>i. parse (newRootCmd env yaml marshal) args = Inr i \<Longrightarrow> \<not> may_change i"
  shows "idle w v"
proof (cases "parse (newRootCmd env yaml marshal) args")
  case (Inl e)
  with assms(1) show ?thesis
    by (auto simp: execute_def dest: idle_raise)
next
  case (Inr i)
  show ?thesis
  proof (cases i)
    case (Help usage)
    with assms(1) Inr show ?thesis
      by (auto simp: execute_def dest: idle_logf)
  next
    case (Run names settings)
    show ?thesis
    proof (cases "\<exists>i run cs fls. find_command [] (newRootCmd env yaml marshal) names = Some (Command i (Some run) cs, fls)")
      case True
      then obtain i' run cs fls
        where f: "find_command [] (newRootCmd env yaml marshal) names = Some (Command i' (Some run) cs, fls)"
        by blast
      have run: "run (read_flags fls settings) w = (r, v)" and no: "\<not> may_change (Run names settings)"
        using assms Inr Run f by (simp_all add: execute_def)
      from f show ?thesis
        by (cases rule: find_command_cases)
          (use run no reset_flags in \<open>auto simp: version_cmd_def dest: idle_reset_unconfirmed idle_validate idle_print_defaults idle_logf\<close>)
    next
      case False
      with assms(1) Inr Run show ?thesis
        by (auto simp: execute_def dest: idle_raise split: option.splits cobra_command.splits)
    qed
  qed
qed

section \<open>Properties\<close>


text \<open>A parser for a reset without its flag.\<close>

definition plain_reset :: parser where
  "plain_reset root args = (if args = [''reset''] then Inr (Run [''reset''] []) else Inl (Text ''unknown command''))"


end
