(* ===== verification/Wait_Live.thy ===== *)
theory Wait_Live
imports Kubeclient
begin

text \<open>
  The parallel wait succeeds on a healthy control plane: a liveness property of the goroutines of
  kubeclient.go, under a schedule that gives each of them a turn.
\<close>

text \<open>The API server reports the object of a query as ready, whenever it is asked.\<close>

definition reports_ready :: "shell \<Rightarrow> call \<Rightarrow> bool" where
  "reports_ready sh q \<longleftrightarrow> (\<forall>h f. failure (fst (sh h q f)) = None \<and> has_ready (conditions (fst (sh h q f))))"

lemma object_ready_calm:
  assumes "reports_ready sh q" "sched w = []"
  obtains v where "object_ready sh q w = (Ok True, v)" "sched v = []"
  using assms by (simp add: object_ready_def seq_def extern_calm reports_ready_def return_def)

text \<open>After the last check has passed, the main loop only has to receive.\<close>

lemma drain:
  "\<lbrakk>waiters_ok cs s; polling s = []; Expire \<notin> set vs; remaining s \<le> count_list vs Receive\<rbrakk> \<Longrightarrow>
     fst (wait_turns sh cs why (vs @ rest) s w) = Ok ()"
proof (induction vs arbitrary: s w)
  case Nil
  then show ?case
    by (simp add: wait_turns.simps return_def)
next
  case (Cons t vs)
  show ?case
  proof (cases "remaining s = 0")
    case True
    then show ?thesis
      by (simp add: wait_turns.simps return_def)
  next
    case False
    show ?thesis
    proof (cases t)
      case (Probe i)
      with False Cons show ?thesis
        by (simp add: wait_turns.simps [of _ _ _ "Probe i # _"])
    next
      case Receive
      from False Cons.prems(1,2) have c: "channel s \<noteq> []"
        by (auto simp: waiters_ok_def)
      have "fst (wait_turns sh cs why (vs @ rest) (received s) w) = Ok ()"
        using Cons.prems Receive False by (intro Cons.IH received_ok c) (auto simp: received_def)
      with False c Receive show ?thesis
        by (simp add: wait_turns.simps [of _ _ _ "Receive # _"])
    next
      case Expire
      with Cons.prems(3) show ?thesis
        by simp
    qed
  qed
qed

text \<open>A probe of a ready object succeeds and leaves the rest of the schedule empty.\<close>

lemma probe_passes:
  assumes "i \<in> set (polling s)" "waiters_ok cs s" "sched w = []" "remaining s \<noteq> 0"
    and ready: "\<And>i. i < length cs \<Longrightarrow> reports_ready sh (query (cs ! i))"
    and "\<And>v. sched v = [] \<Longrightarrow> fst (wait_turns sh cs why us (passed_check cs i s) v) = Ok ()"
  shows "fst (wait_turns sh cs why (Probe i # us) s w) = Ok ()"
proof -
  have i: "i < length cs"
    using assms(1,2) by (auto simp: waiters_ok_def)
  from object_ready_calm [OF ready [OF i] assms(3)]
  obtain v where "object_ready sh (query (cs ! i)) w = (Ok True, v)" "sched v = []" .
  with assms show ?thesis
    by (simp add: wait_turns.simps [of _ _ _ "Probe i # _"] seq_def)
qed

lemma all_probed:
  assumes ready: "\<And>i. i < length cs \<Longrightarrow> reports_ready sh (query (cs ! i))" and vs: "Expire \<notin> set vs"
  shows "\<lbrakk>waiters_ok cs s; sched w = []; Expire \<notin> set us; Probe ` set (polling s) \<subseteq> set us;
      remaining s \<le> count_list vs Receive\<rbrakk> \<Longrightarrow>
    fst (wait_turns sh cs why (us @ vs @ rest) s w) = Ok ()"
proof (induction us arbitrary: s w)
  case Nil
  then show ?case
    using drain [OF Nil.prems(1) _ vs Nil.prems(5)] by simp
next
  case (Cons t us)
  show ?case
  proof (cases "remaining s = 0")
    case True
    then show ?thesis
      by (simp add: wait_turns.simps return_def)
  next
    case False
    show ?thesis
    proof (cases t)
      case (Probe i)
      show ?thesis
      proof (cases "i \<in> set (polling s)")
        case True
        have "fst (wait_turns sh cs why (us @ vs @ rest) (passed_check cs i s) v) = Ok ()" if "sched v = []" for v
          using Cons.prems Probe that by (intro Cons.IH passed_ok True) (auto simp: passed_check_def)
        from probe_passes [OF True Cons.prems(1,2) False ready this] show ?thesis
          by (simp add: Probe)
      next
        case other: False
        with Cons.prems Probe have "fst (wait_turns sh cs why (us @ vs @ rest) s w) = Ok ()"
          by (intro Cons.IH) auto
        with False other Probe show ?thesis
          by (simp add: wait_turns.simps [of _ _ _ "Probe i # _"])
      qed
    next
      case Receive
      have "fst (wait_turns sh cs why (us @ vs @ rest) (if channel s = [] then s else received s) w) = Ok ()"
        using Cons.prems Receive by (intro Cons.IH) (auto simp: received_ok, auto simp: received_def)
      with False Receive show ?thesis
        by (simp add: wait_turns.simps [of _ _ _ "Receive # _"])
    next
      case Expire
      with Cons.prems(3) show ?thesis
        by simp
    qed
  qed
qed

section \<open>Properties\<close>

text \<open>C15: the wait for the control plane ends well on a healthy one: if the node and the three static pods are
  reported ready whenever they are asked for, each of the four goroutines gets a turn, and after that the
  main loop gets four, all before the context is done, then the wait succeeds, in whatever order the
  turns come and whatever follows them.\<close>

theorem WaitForControlPlane_completes:
  assumes "\<forall>q \<in> healthy_queries cl node. reports_ready sh q" and "sched w = []"
    and "{Probe 0, Probe 1, Probe 2, Probe 3} \<subseteq> set us" and "4 \<le> count_list vs Receive"
    and "Expire \<notin> set (us @ vs)"
  shows "fst (WaitForControlPlane sh (us @ vs @ rest) tc cl node w) = Ok ()"
proof -
  let ?cs = "control_plane_checks cl node"
  have four: "length ?cs = 4"
    by (simp add: control_plane_checks_def)
  have "query ` set ?cs = healthy_queries cl node"
    by (simp add: control_plane_checks_def healthy_queries_def)
  then have "reports_ready sh (query (?cs ! i))" if "i < length ?cs" for i
    using assms(1) nth_mem [OF that] by blast
  moreover have "Probe ` set (polling (start_waiters ?cs)) \<subseteq> set us"
    using assms(3) four by (simp add: start_waiters_def upt_rec numeral_eq_Suc)
  moreover have "remaining (start_waiters ?cs) \<le> count_list vs Receive"
    using assms(4) four by (simp add: start_waiters_def)
  ultimately show ?thesis
    unfolding WaitForControlPlane_def waitAllReady_def
    using assms(2,5) by (intro all_probed start_waiters_ok) auto
qed

lemma WaitForControlPlane_completes_witness:
  "fst (WaitForControlPlane ready_server ([Probe 2, Receive, Probe 0, Probe 3, Probe 1] @ [Receive, Receive, Receive, Receive] @ [Expire])
     (5, deadline_exceeded) ''c'' ''n'' (quiet \<lparr>ents = [], stamps = []\<rparr>)) = Ok ()"
  by (rule WaitForControlPlane_completes) (auto simp: reports_ready_def ready_server_def)

end
