(* ===== verification/Testutil.thy ===== *)
theory Testutil
imports Paths
begin

text \<open>
  internal/testutil/paths.go: the variables of package paths as a state, and the helper of the tests that
  moves all of them below a temporary directory and puts them back.
\<close>

section \<open>The variables\<close>

record path_vars =
  ConfigDir :: path
  ConfigFile :: path
  KubernetesDir :: path
  PKIDir :: path
  EtcdPKIDir :: path
  ManifestsDir :: path
  KubeconfigDir :: path
  AdminKubeconfig :: path
  KubeletKubeconfig :: path
  CMKubeconfig :: path
  SchedKubeconfig :: path
  KubeletDir :: path
  KubeletConfigFile :: path
  KubeletFlagsEnvFile :: path
  EtcdDataDir :: path
  NanoK8sVarDir :: path
  StateDir :: path
  BackupsDir :: path
  LastBootFile :: path
  LastEventFile :: path
  RestoreMarker :: path

definition default_paths :: path_vars where
  "default_paths = \<lparr>ConfigDir = config_dir, ConfigFile = config_file, KubernetesDir = kubernetes_dir, PKIDir = pki_dir,
     EtcdPKIDir = etcd_pki_dir, ManifestsDir = manifests_dir, KubeconfigDir = kubeconfig_dir,
     AdminKubeconfig = admin_kubeconfig, KubeletKubeconfig = kubelet_kubeconfig, CMKubeconfig = cm_kubeconfig,
     SchedKubeconfig = sched_kubeconfig, KubeletDir = kubelet_dir, KubeletConfigFile = kubelet_config_file,
     KubeletFlagsEnvFile = kubelet_flags_env_file, EtcdDataDir = etcd_data_dir, NanoK8sVarDir = nanok8s_var_dir,
     StateDir = state_dir, BackupsDir = backups_dir, LastBootFile = last_boot_file, LastEventFile = last_event_file,
     RestoreMarker = restore_marker\<rparr>"

section \<open>The helper\<close>

text \<open>The assignments of UseTempPaths in their order: each reads what was assigned before.\<close>

definition temp_paths :: "path \<Rightarrow> path_vars \<Rightarrow> path_vars" where
  "temp_paths root p0 =
     (let p1 = p0\<lparr>ConfigDir := joinp root ''etc/nanok8s''\<rparr>;
          p2 = p1\<lparr>ConfigFile := joinp (ConfigDir p1) ''config.yaml''\<rparr>;
          p3 = p2\<lparr>KubernetesDir := joinp root ''etc/kubernetes''\<rparr>;
          p4 = p3\<lparr>PKIDir := joinp (KubernetesDir p3) ''pki''\<rparr>;
          p5 = p4\<lparr>EtcdPKIDir := joinp (PKIDir p4) ''etcd''\<rparr>;
          p6 = p5\<lparr>ManifestsDir := joinp (KubernetesDir p5) ''manifests''\<rparr>;
          p7 = p6\<lparr>KubeconfigDir := KubernetesDir p6\<rparr>;
          p8 = p7\<lparr>AdminKubeconfig := joinp (KubeconfigDir p7) ''admin.conf''\<rparr>;
          p9 = p8\<lparr>KubeletKubeconfig := joinp (KubeconfigDir p8) ''kubelet.conf''\<rparr>;
          p10 = p9\<lparr>CMKubeconfig := joinp (KubeconfigDir p9) ''controller-manager.conf''\<rparr>;
          p11 = p10\<lparr>SchedKubeconfig := joinp (KubeconfigDir p10) ''scheduler.conf''\<rparr>;
          p12 = p11\<lparr>KubeletDir := joinp root ''var/lib/kubelet''\<rparr>;
          p13 = p12\<lparr>KubeletConfigFile := joinp (KubeletDir p12) ''config.yaml''\<rparr>;
          p14 = p13\<lparr>KubeletFlagsEnvFile := joinp (KubeletDir p13) ''kubeadm-flags.env''\<rparr>;
          p15 = p14\<lparr>EtcdDataDir := joinp root ''var/lib/etcd''\<rparr>;
          p16 = p15\<lparr>NanoK8sVarDir := joinp root ''var/lib/nanok8s''\<rparr>;
          p17 = p16\<lparr>StateDir := joinp (NanoK8sVarDir p16) ''state''\<rparr>;
          p18 = p17\<lparr>BackupsDir := joinp (NanoK8sVarDir p17) ''backups''\<rparr>;
          p19 = p18\<lparr>LastBootFile := joinp (StateDir p18) ''last-boot.json''\<rparr>;
          p20 = p19\<lparr>LastEventFile := joinp (StateDir p19) ''last-event''\<rparr>
      in p20\<lparr>RestoreMarker := joinp (BackupsDir p20) ''restore''\<rparr>)"

text \<open>The struct that snapshot fills by position and restore reads by name: its fields in their order.\<close>

type_synonym paths_snapshot = "path list"

definition snapshot :: "path_vars \<Rightarrow> paths_snapshot" where
  "snapshot p = [ConfigDir p, ConfigFile p, KubernetesDir p, PKIDir p, EtcdPKIDir p, ManifestsDir p, KubeconfigDir p,
     AdminKubeconfig p, KubeletKubeconfig p, CMKubeconfig p, SchedKubeconfig p, KubeletDir p, KubeletConfigFile p,
     KubeletFlagsEnvFile p, EtcdDataDir p, NanoK8sVarDir p, StateDir p, BackupsDir p, LastBootFile p,
     LastEventFile p, RestoreMarker p]"

definition restore_paths :: "paths_snapshot \<Rightarrow> path_vars \<Rightarrow> path_vars" where
  "restore_paths s p = p\<lparr>ConfigDir := s ! 0, ConfigFile := s ! 1, KubernetesDir := s ! 2, PKIDir := s ! 3,
     EtcdPKIDir := s ! 4, ManifestsDir := s ! 5, KubeconfigDir := s ! 6, AdminKubeconfig := s ! 7,
     KubeletKubeconfig := s ! 8, CMKubeconfig := s ! 9, SchedKubeconfig := s ! 10, KubeletDir := s ! 11,
     KubeletConfigFile := s ! 12, KubeletFlagsEnvFile := s ! 13, EtcdDataDir := s ! 14, NanoK8sVarDir := s ! 15,
     StateDir := s ! 16, BackupsDir := s ! 17, LastBootFile := s ! 18, LastEventFile := s ! 19, RestoreMarker := s ! 20\<rparr>"

text \<open>The new variables, and what the cleanup of the test makes of whatever they are then.\<close>

definition UseTempPaths :: "path \<Rightarrow> path_vars \<Rightarrow> path_vars \<times> (path_vars \<Rightarrow> path_vars)" where
  "UseTempPaths root p = (let orig = snapshot p in (temp_paths root p, restore_paths orig))"

section \<open>Properties\<close>

text \<open>C40: the tests see the layout of production: each variable is moved to its default place below the
  temporary directory, whatever the variables were, and the cleanup restores every one, whatever a
  test made of them.\<close>

theorem UseTempPaths_relocates:
  "snapshot (fst (UseTempPaths root p)) = map ((@) root) (snapshot default_paths) \<and>
   snd (UseTempPaths root p) q = p"
  by (simp add: UseTempPaths_def Let_def temp_paths_def snapshot_def restore_paths_def default_paths_def
      joinp_def push_comp_def paths_defs more_paths_defs)

end
