(* ===== verification/Spec2Isabelle.thy ===== *)
theory Spec2Isabelle
imports History Program Wait_Live Testutil
begin

text \<open>
  A verification library for nanok8s, a Go program that brings up a single-node Kubernetes control
  plane on an image-based (ostree, bootc) host, keeps snapshots of its state between boots, and restores
  one when the host has rolled back to an earlier deployment.

  \<^bold>\<open>The program and its model.\<close>  The program is a command line tool.  Its command boot, run by systemd, calls
  lifecycle.Boot, which calls the packages ostree, backup, state, kubeadm and kubeclient; bootstrap
  prepares a node and reset tears it down.  Every function that touches the system is a computation
  (\<open>'a io\<close> in Goio): it takes a world and returns an outcome (\<open>Ok\<close>, \<open>Err\<close>, \<open>Panic\<close>, or \<open>Crashed\<close> where
  the machine stops) with the new world.  A world is the file system, a schedule, the clock, the calls
  of programs made so far and the log.  Each system call consumes one step of the schedule, which lets
  it proceed, makes it fail, or stops the machine in it; a removal or a write that is interrupted
  leaves a part of its work, chosen by the step.  The schedule is universally quantified in the
  properties, so they speak of every placement of failures and crashes; a schedule that is used up lets
  calls proceed.  Errors are values of the type \<open>err\<close>, with the texts the code wraps around them.

  \<^bold>\<open>Code outside the repository is a parameter.\<close>
  \<^item> Programs (cp, rpm-ostree, systemctl, crictl, ip, iptables, ipvsadm), the phases of the kubeadm
    library, the Kubernetes clients, os.Hostname and sd_notify are calls of one parameter \<open>sh\<close>: the
    history of calls, the call and the file system give a reply and the new file system.  The timeouts
    the code sets on single programs show as failures in the replies.
  \<^item> kubeadm's default InitConfiguration is the parameter \<open>dflt\<close>; the records of Kubeadm hold the fields the
    code sets and one field for all it leaves alone.
  \<^item> The strict YAML decoder and the encoder are the parameters \<open>yaml\<close> and \<open>marshal\<close>; how cobra reads the
    arguments is the parameter \<open>parse\<close>.
  \<^item> Hypotheses on \<open>sh\<close> are named: \<open>cp_contract\<close> (Backup) says what cp -a does to its destination when it
    reports success and that it changes nothing else in any case; \<open>confined\<close> (Calls) says that a kind of
    calls writes only in a given set of paths; \<open>programs_contract\<close> (Boot_Safety) is cp_contract with all
    other calls confined to what is not below /var/lib/nanok8s; \<open>status_reads_only\<close> (Boot_Restore) says that
    rpm-ostree status writes nothing; \<open>boot_contract\<close> (History) adds that the ids of deployments have no
    slash.  \<open>sample_shell\<close> (Copies) is a concrete \<open>sh\<close> that meets them, and the
    witnesses run the program with it.

  \<^bold>\<open>Theories.\<close>
  \<^item> Prelude: strings and path functions of Go's library, lemma collections.  Paths: internal/paths.
  \<^item> Files, Goio, Reason, Frames: the file system with its operations, the effects, the locale
    \<open>files_rel\<close> (a relation between file systems that every computation built from calls keeps, if the calls
    do), and its interpretations: nothing outside a set of paths changes, nothing is made, well-formedness
    is kept, modification times are kept.
  \<^item> Hoare: triples (\<open>triple P m Q C\<close>) for computations that may stop anywhere, with which Boot_Safety and
    History follow a boot step by step.
  \<^item> Calls: the locale \<open>calls_rel\<close>, the same for the calls of programs, and \<open>follows\<close>, the list of calls a
    computation makes in order.
  \<^item> Utf8: the runes of a byte string as Go decodes them, the replacement of invalid bytes, strings.TrimSpace,
    the folding of object keys.  Json: encoding/json as far as it is used, on top of it.  Net: ParseIP and ParseCIDR of package net.
  \<^item> Store: internal/state/state.go.  Ostree: internal/ostree/ostree.go.
  \<^item> Backup: internal/backup/backup.go, all operations; Copies, Backup_Snapshot (Create), Backup_Restore (Restore) and
    Backup_Retention (List, LatestForDeployment, Prune) hold its lemmas and properties.
  \<^item> Api: internal/apis/bootstrap/v1alpha1 (types.go, defaults.go, validate.go).  Config: internal/config/load.go.
  \<^item> Kubeadm: internal/kubeadm (config.go, ensure.go, node.go, addons.go).
  \<^item> Kubeclient: internal/kubeclient/kubeclient.go.
  \<^item> Lifecycle: internal/lifecycle/boot.go; Boot_Safety and Boot_Restore hold its lemmas and properties.
  \<^item> Wait_Live: when the parallel wait of Kubeclient must succeed.
  \<^item> Rollback: two boots with a change of the host between them.
  \<^item> Reset: cmd/nanok8s/reset.go.  Cli: the other commands of cmd/nanok8s and internal/version.
  \<^item> Program: cmd/nanok8s/main.go, root.go and the constructors of the commands: the command tree with its flags, and
    the run from the arguments to the exit status.
  \<^item> History: the life of a node as an inductive step relation between file systems (\<open>node_step\<close>: a boot, a
    bootstrap, a reset, each with any outcome; changes from outside; greenboot's marker) and the
    invariant \<open>store_ok\<close> of its steps.
  \<^item> Testutil: internal/testutil/paths.go, the path variables as a state.

  A definition has the name of its Go function where Isabelle allows it (\<open>backup_Create\<close> is Create of
  package backup, \<open>write_atomic\<close> is writeAtomic, \<open>config_sans\<close> is extraSANs).  Long functions are cut at
  their blocks: Boot is \<open>prepare_boot\<close> (up to the announcement of the path), \<open>bring_up\<close> (the steps whose
  failure goes through bootFailed), \<open>tidy_up\<close> (addons and prune, whose errors are logged) and \<open>record_boot\<close>.
\<close>

text \<open>
  \<^bold>\<open>What the properties show.\<close>
  \<^item> One boot: without a restore request a boot that fails or is cut short keeps the record of the last
    healthy boot and never notifies systemd, and the record is replaced only after the node and the three
    static pods were reported ready (Boot_Safety); before kubeadm runs, what the previous boot left is in a
    complete snapshot; a restore request is served by a newest backup of the deployment and is consumed;
    without ostree no backup is touched (Boot_Restore).
  \<^item> Several runs: what the first boot of a new deployment saved is what the old one gets back when the host
    returns to it (Rollback); what the properties of a boot assume of the files of nanok8s holds in every
    state that a node without nanok8s can get into (History).
  \<^item> Backups: Create is all or nothing; Restore makes the live trees those of the backup, a backup is
    never changed, an interrupted restore can be repeated; Restore after Create is the identity on what is
    saved; Prune keeps a newest backup of each known deployment under all failures.
  \<^item> State files: writes are atomic, and what is written is read back, up to bytes that are not valid UTF-8.
  \<^item> Waits: the poll of the API server ends after a number of probes given by the time that is left, and
    succeeds if the server becomes ready in that time; the parallel wait is a run of a transition system
    whose invariant says that no check is lost, counted twice or stuck, and it succeeds on a healthy node
    (Wait_Live).
  \<^item> Configuration: validation accepts exactly a declarative predicate, defaults make a minimal
    configuration valid, change only zero fields and are idempotent, and what kubeadm is given for a
    loaded file is well-formed.
  \<^item> kubeadm: the phases run in dependency order on one configuration and stop at the first failure;
    they leave data, backups and state alone if each phase keeps to the trees of Kubernetes.
  \<^item> Commands: bootstrap runs once, no command acts on a bad configuration, a successful reset removes the four
    trees, only their removal can fail it, and the node is then a fresh one for bootstrap and boot; the exit
    status tells the outcome.

  Some theorems state what the code does against its intent: Prune splits names at the first
  underscore, its comparison panics when a stat fails, and when it is interrupted the emptied backup counts as
  the newest from then on (Backup_Retention); restoreDir can leave half a live tree after a crash
  (Backup_Restore); validity periods beyond 106751 days wrap to other, possibly negative, durations (Kubeadm).

  \<^bold>\<open>Bounds and choices.\<close>  The JSON parser has fuel; \<open>parse_fuel\<close> shows that any amount above the length of
  the text gives the same result.  Polling is a recursion over the milliseconds that are left, which
  terminates because every round waits 2000 of them; how long probes take and which ready case a select
  takes are parameters.  The goroutines of the parallel wait take turns in an order that is a parameter,
  and the end of the order is the moment the context is done.  The order in which Prune ranges over its map
  is a parameter.  sort.Slice is the insertion sort Go uses for up to twelve elements; for more, Go's result
  is another order of elements with equal times, which the properties leave open.  Integers of the
  configuration are words of 32 bits, durations words of 64.

  \<^bold>\<open>Not modelled.\<close>  The wait of boot for a signal after it is done, in which nothing changes (a signal
  before that is the end of its contexts, which is modelled); t.TempDir and t.Cleanup of Go's testing library, whose
  directory and order are parameters; the values that linker flags can give to the version; permission bits,
  owners, links and mount points of the file system; two instances of the program at the same time; time zones
  and the precision of clocks; in Json the texts of parse errors; the lower case of
  letters outside ASCII in a host name.
\<close>

end
